theory Spec2Isabelle
  imports Complex_Main
begin

section \<open>JavaScript values\<close>

text \<open>
  A JavaScript number is a binary64 value. The finite ones are rationals; the three
  non-finite ones are constructors of their own. No arithmetic is done on numbers by the
  program: it only asks \<open>Number.isInteger\<close>.
\<close>

datatype jsnum = Finite rat | NaN | PosInfinity | NegInfinity

text \<open>Values whose \<open>typeof\<close> is neither a JSON type nor \<open>undefined\<close>.\<close>

datatype exotic = Function | Symbol | BigInt

text \<open>
  The values \<open>inferSchema(data: any)\<close> can be given. An object is the list of its own
  enumerable entries in the order \<open>Object.entries\<close> yields them. A string is the list of
  the bytes of its UTF-8 encoding; the program inspects strings only through patterns over
  ASCII characters, which read the same in every encoding.
\<close>

datatype jsval =
    VUndefined
  | VNull
  | VBool bool
  | VNum jsnum
  | VStr string
  | VArr "jsval list"
  | VObj "(string \<times> jsval) list"
  | VOther exotic

fun typeof :: "jsval \<Rightarrow> string" where
  "typeof VUndefined = ''undefined''"
| "typeof VNull = ''object''"
| "typeof (VBool b) = ''boolean''"
| "typeof (VNum n) = ''number''"
| "typeof (VStr s) = ''string''"
| "typeof (VArr xs) = ''object''"
| "typeof (VObj kvs) = ''object''"
| "typeof (VOther Function) = ''function''"
| "typeof (VOther Symbol) = ''symbol''"
| "typeof (VOther BigInt) = ''bigint''"

text \<open>\<open>Number.isInteger\<close>: false on every non-finite number, else whether the value is integral.\<close>

fun Number_isInteger :: "jsnum \<Rightarrow> bool" where
  "Number_isInteger (Finite r) = (of_int \<lfloor>r\<rfloor> = r)"
| "Number_isInteger NaN = False"
| "Number_isInteger PosInfinity = False"
| "Number_isInteger NegInfinity = False"

section \<open>Objects as ordered entry lists\<close>

definition is_digit :: "char \<Rightarrow> bool" where
  "is_digit c = (48 \<le> (of_char c :: nat) \<and> (of_char c :: nat) \<le> 57)"

definition digit_val :: "char \<Rightarrow> nat" where
  "digit_val c = of_char c - 48"

definition nat_of_digits :: "string \<Rightarrow> nat" where
  "nat_of_digits s = foldl (\<lambda>n c. 10 * n + digit_val c) 0 s"

text \<open>
  An array index is a canonical decimal numeral below \<open>2^32 - 1\<close>. Keys that are array
  indices are enumerated first, in ascending numeric order; all other keys follow in
  insertion order.
\<close>

definition is_array_index :: "string \<Rightarrow> bool" where
  "is_array_index k =
     (k \<noteq> [] \<and> list_all is_digit k \<and> (k = ''0'' \<or> hd k \<noteq> CHR ''0'')
      \<and> nat_of_digits k < 4294967295)"

fun obj_has :: "(string \<times> 'v) list \<Rightarrow> string \<Rightarrow> bool" where
  "obj_has [] k = False"
| "obj_has ((k', v) # kvs) k = (k' = k \<or> obj_has kvs k)"

fun obj_get :: "(string \<times> 'v) list \<Rightarrow> string \<Rightarrow> 'v option" where
  "obj_get [] k = None"
| "obj_get ((k', v) # kvs) k = (if k' = k then Some v else obj_get kvs k)"

fun obj_replace :: "(string \<times> 'v) list \<Rightarrow> string \<Rightarrow> 'v \<Rightarrow> (string \<times> 'v) list" where
  "obj_replace [] k v = []"
| "obj_replace ((k', v') # kvs) k v =
     (if k' = k then (k', v) # kvs else (k', v') # obj_replace kvs k v)"

fun obj_insert_index :: "(string \<times> 'v) list \<Rightarrow> string \<Rightarrow> 'v \<Rightarrow> (string \<times> 'v) list" where
  "obj_insert_index [] k v = [(k, v)]"
| "obj_insert_index ((k', v') # kvs) k v =
     (if is_array_index k' \<and> nat_of_digits k' < nat_of_digits k
      then (k', v') # obj_insert_index kvs k v
      else (k, v) # (k', v') # kvs)"

text \<open>
  The assignment \<open>obj[k] = v\<close> on an ordinary object: an existing key keeps its place, a
  new array index is put in numeric order, any other new key goes last. (The key
  \<open>__proto__\<close>, which assignment treats as the prototype, is taken as an ordinary key.)
\<close>

definition obj_set :: "(string \<times> 'v) list \<Rightarrow> string \<Rightarrow> 'v \<Rightarrow> (string \<times> 'v) list" where
  "obj_set kvs k v =
     (if obj_has kvs k then obj_replace kvs k v
      else if is_array_index k then obj_insert_index kvs k v
      else kvs @ [(k, v)])"

text \<open>\<open>delete obj[k]\<close>.\<close>

fun obj_delete :: "(string \<times> 'v) list \<Rightarrow> string \<Rightarrow> (string \<times> 'v) list" where
  "obj_delete [] k = []"
| "obj_delete ((k', v) # kvs) k = (if k' = k then kvs else (k', v) # obj_delete kvs k)"

section \<open>The schema node (src/utils/inferSchema.ts, \<open>SchemaType\<close>)\<close>

text \<open>
  The interface \<open>SchemaType\<close>: \<open>type\<close> is mandatory, every other field is optional
  (\<open>None\<close> is an absent or \<open>undefined\<close> field). \<open>properties\<close> is a \<open>Record\<close>, kept as
  its entry list. The field \<open>enum\<close> is called \<open>enum_s\<close> here.
\<close>

datatype SchemaType = SchemaType
  (type: string)
  (properties: "(string \<times> SchemaType) list option")
  (items: "SchemaType option")
  (format: "string option")
  (required: "string list option")
  (enum_s: "SchemaType list option")

text \<open>The object literal \<open>{ type: t }\<close>.\<close>

definition type_only :: "string \<Rightarrow> SchemaType" where
  "type_only t = SchemaType t None None None None None"

text \<open>The recorded present-field list of a node; an absent \<open>required\<close> records none.\<close>

definition required_keys :: "SchemaType \<Rightarrow> string list" where
  "required_keys n = (case required n of None \<Rightarrow> [] | Some r \<Rightarrow> r)"

section \<open>Anchored regular expressions of the primitive classifier\<close>

text \<open>
  The three patterns of \<open>inferPrimitiveSchema\<close> are anchored at both ends and use only
  character classes, concatenation, alternation and repetition, so \<open>test\<close> decides
  membership of the whole string in a regular language. The matcher below decides it by
  derivatives.
\<close>

datatype rx =
    Never
  | Eps
  | Cls "(char \<times> char) list"
  | RSeq rx rx
  | RAlt rx rx
  | Star rx

fun in_cls :: "(char \<times> char) list \<Rightarrow> char \<Rightarrow> bool" where
  "in_cls [] c = False"
| "in_cls ((lo, hi) # rs) c =
     (((of_char lo :: nat) \<le> of_char c \<and> (of_char c :: nat) \<le> of_char hi) \<or> in_cls rs c)"

fun nullable :: "rx \<Rightarrow> bool" where
  "nullable Never = False"
| "nullable Eps = True"
| "nullable (Cls rs) = False"
| "nullable (RSeq r s) = (nullable r \<and> nullable s)"
| "nullable (RAlt r s) = (nullable r \<or> nullable s)"
| "nullable (Star r) = True"

fun deriv :: "char \<Rightarrow> rx \<Rightarrow> rx" where
  "deriv c Never = Never"
| "deriv c Eps = Never"
| "deriv c (Cls rs) = (if in_cls rs c then Eps else Never)"
| "deriv c (RSeq r s) =
     (if nullable r then RAlt (RSeq (deriv c r) s) (deriv c s) else RSeq (deriv c r) s)"
| "deriv c (RAlt r s) = RAlt (deriv c r) (deriv c s)"
| "deriv c (Star r) = RSeq (deriv c r) (Star r)"

definition rx_test :: "rx \<Rightarrow> string \<Rightarrow> bool" where
  "rx_test r s = nullable (fold deriv s r)"

definition lit :: "char \<Rightarrow> rx" where
  "lit c = Cls [(c, c)]"

definition some1 :: "rx \<Rightarrow> rx" where
  "some1 r = RSeq r (Star r)"

definition optional :: "rx \<Rightarrow> rx" where
  "optional r = RAlt r Eps"

fun rep :: "nat \<Rightarrow> rx \<Rightarrow> rx" where
  "rep 0 r = Eps"
| "rep (Suc n) r = RSeq r (rep n r)"

definition seqs :: "rx list \<Rightarrow> rx" where
  "seqs rs = foldr RSeq rs Eps"

definition digit :: rx where
  "digit = Cls [(CHR ''0'', CHR ''9'')]"

definition hex :: rx where
  "hex = Cls [(CHR ''0'', CHR ''9''), (CHR ''a'', CHR ''f''), (CHR ''A'', CHR ''F'')]"

text \<open>\<^verbatim>\<open>^\d{4}-\d{2}-\d{2}T\d{2}:\d{2}:\d{2}(\.\d+)?(Z|[+-]\d{2}:\d{2})$\<close>\<close>

definition date_time_rx :: rx where
  "date_time_rx = seqs
     [rep 4 digit, lit CHR ''-'', rep 2 digit, lit CHR ''-'', rep 2 digit, lit CHR ''T'',
      rep 2 digit, lit CHR '':'', rep 2 digit, lit CHR '':'', rep 2 digit,
      optional (RSeq (lit CHR ''.'') (some1 digit)),
      RAlt (lit CHR ''Z'')
           (seqs [Cls [(CHR ''+'', CHR ''+''), (CHR ''-'', CHR ''-'')],
                  rep 2 digit, lit CHR '':'', rep 2 digit])]"

text \<open>\<^verbatim>\<open>^[a-zA-Z0-9._%+-]+@[a-zA-Z0-9.-]+\.[a-zA-Z]{2,}$\<close>\<close>

definition email_rx :: rx where
  "email_rx = seqs
     [some1 (Cls [(CHR ''a'', CHR ''z''), (CHR ''A'', CHR ''Z''), (CHR ''0'', CHR ''9''),
                 (CHR ''.'', CHR ''.''), (CHR ''_'', CHR ''_''), (CHR ''%'', CHR ''%''),
                 (CHR ''+'', CHR ''+''), (CHR ''-'', CHR ''-'')]),
      lit CHR ''@'',
      some1 (Cls [(CHR ''a'', CHR ''z''), (CHR ''A'', CHR ''Z''), (CHR ''0'', CHR ''9''),
                 (CHR ''.'', CHR ''.''), (CHR ''-'', CHR ''-'')]),
      lit CHR ''.'',
      rep 2 (Cls [(CHR ''a'', CHR ''z''), (CHR ''A'', CHR ''Z'')]),
      Star (Cls [(CHR ''a'', CHR ''z''), (CHR ''A'', CHR ''Z'')])]"

text \<open>\<^verbatim>\<open>^[0-9a-fA-F]{8}-[0-9a-fA-F]{4}-[0-9a-fA-F]{4}-[0-9a-fA-F]{4}-[0-9a-fA-F]{12}$\<close>\<close>

definition uuid_rx :: rx where
  "uuid_rx = seqs
     [rep 8 hex, lit CHR ''-'', rep 4 hex, lit CHR ''-'', rep 4 hex, lit CHR ''-'',
      rep 4 hex, lit CHR ''-'', rep 12 hex]"

section \<open>The primitive classifier (\<open>inferPrimitiveSchema\<close>)\<close>

fun inferPrimitiveSchema :: "jsval \<Rightarrow> SchemaType" where
  "inferPrimitiveSchema (VStr value) =
     (if rx_test date_time_rx value then SchemaType ''string'' None None (Some ''date-time'') None None
      else if rx_test email_rx value then SchemaType ''string'' None None (Some ''email'') None None
      else if rx_test uuid_rx value then SchemaType ''string'' None None (Some ''uuid'') None None
      else type_only ''string'')"
| "inferPrimitiveSchema (VNum value) =
     (if Number_isInteger value then type_only ''integer'' else type_only ''number'')"
| "inferPrimitiveSchema (VBool value) = type_only ''boolean''"
| "inferPrimitiveSchema value = type_only (typeof value)"

section \<open>JSON values and \<open>JSON.stringify\<close>\<close>

text \<open>
  The values \<open>JSON.parse\<close> returns and the objects the JSON-Schema generator builds: no
  \<open>undefined\<close>, no functions. An object is again its entry list in enumeration order.
\<close>

datatype json =
    JNull
  | JBool bool
  | JNum jsnum
  | JStr string
  | JArr "json list"
  | JObj "(string \<times> json) list"

text \<open>\<open>Array.prototype.join\<close> on strings.\<close>

fun join :: "string \<Rightarrow> string list \<Rightarrow> string" where
  "join sep [] = []"
| "join sep [x] = x"
| "join sep (x # y # ys) = x @ sep @ join sep (y # ys)"

definition digit_char :: "nat \<Rightarrow> char" where
  "digit_char n = char_of (48 + n)"

fun show_nat :: "nat \<Rightarrow> string" where
  "show_nat n = (if n < 10 then [digit_char n] else show_nat (n div 10) @ [digit_char (n mod 10)])"

declare show_nat.simps [simp del]

text \<open>
  \<open>Number::toString\<close> of a finite number, on the exact decimal expansion of the rational:
  \<open>x = s * 10^e\<close> with \<open>s\<close> not divisible by ten, \<open>k\<close> the number of digits of \<open>s\<close> and
  \<open>n = k + e\<close> the position of the decimal point. Rounding to binary64 and the choice of
  the shortest round-trip digit string are not part of this model; an expansion that does
  not end is cut after 1100 fractional digits.
\<close>

fun scale_up :: "nat \<Rightarrow> rat \<Rightarrow> nat \<Rightarrow> nat \<times> nat" where
  "scale_up 0 x j = (nat \<lfloor>x\<rfloor>, j)"
| "scale_up (Suc fuel) x j =
     (if of_int \<lfloor>x\<rfloor> = x then (nat \<lfloor>x\<rfloor>, j) else scale_up fuel (10 * x) (Suc j))"

fun strip_zeros :: "nat \<Rightarrow> nat \<Rightarrow> int \<Rightarrow> nat \<times> int" where
  "strip_zeros 0 s e = (s, e)"
| "strip_zeros (Suc fuel) s e =
     (if s \<noteq> 0 \<and> s mod 10 = 0 then strip_zeros fuel (s div 10) (e + 1) else (s, e))"

definition show_positive :: "rat \<Rightarrow> string" where
  "show_positive x =
     (let (s0, j) = scale_up 1100 x 0;
          (s, e) = strip_zeros (length (show_nat s0)) s0 (- int j);
          ds = show_nat s;
          k = int (length ds);
          n = k + e
      in if k \<le> n \<and> n \<le> 21 then ds @ replicate (nat (n - k)) CHR ''0''
         else if 0 < n \<and> n \<le> 21 then take (nat n) ds @ ''.'' @ drop (nat n) ds
         else if - 6 < n \<and> n \<le> 0 then ''0.'' @ replicate (nat (- n)) CHR ''0'' @ ds
         else (if k = 1 then ds else take 1 ds @ ''.'' @ drop 1 ds)
              @ ''e'' @ (if 0 \<le> n - 1 then ''+'' else ''-'') @ show_nat (nat \<bar>n - 1\<bar>))"

definition Number_toString :: "rat \<Rightarrow> string" where
  "Number_toString x =
     (if x = 0 then ''0'' else if x < 0 then ''-'' @ show_positive (- x) else show_positive x)"

text \<open>
  \<open>QuoteJSONString\<close>: the quotation mark, the backslash and the control characters are
  escaped; every other character stands for itself.
\<close>

definition hex_char :: "nat \<Rightarrow> char" where
  "hex_char n = (if n < 10 then char_of (48 + n) else char_of (87 + n))"

definition quote_char :: "char \<Rightarrow> string" where
  "quote_char c =
     (let n = (of_char c :: nat) in
      if n = 34 then [CHR 0x5C, CHR 0x22]
      else if n = 92 then [CHR 0x5C, CHR 0x5C]
      else if n = 8 then [CHR 0x5C, CHR ''b'']
      else if n = 9 then [CHR 0x5C, CHR ''t'']
      else if n = 10 then [CHR 0x5C, CHR ''n'']
      else if n = 12 then [CHR 0x5C, CHR ''f'']
      else if n = 13 then [CHR 0x5C, CHR ''r'']
      else if n < 32 then [CHR 0x5C, CHR ''u'', CHR ''0'', CHR ''0'', hex_char (n div 16), hex_char (n mod 16)]
      else [c])"

definition JSON_quote :: "string \<Rightarrow> string" where
  "JSON_quote s = [CHR 0x22] @ concat (map quote_char s) @ [CHR 0x22]"

text \<open>
  \<open>SerializeJSONProperty\<close> with the indentation unit \<open>gap\<close> (empty for the compact
  form) and the current indentation \<open>indent\<close>.
\<close>

fun stringify_gap :: "string \<Rightarrow> string \<Rightarrow> json \<Rightarrow> string" where
  "stringify_gap gap indent JNull = ''null''"
| "stringify_gap gap indent (JBool b) = (if b then ''true'' else ''false'')"
| "stringify_gap gap indent (JNum n) = (case n of Finite r \<Rightarrow> Number_toString r | _ \<Rightarrow> ''null'')"
| "stringify_gap gap indent (JStr s) = JSON_quote s"
| "stringify_gap gap indent (JArr xs) =
     (let stepback = indent;
          indent' = indent @ gap;
          partial = map (stringify_gap gap indent') xs
      in if partial = [] then ''[]''
         else if gap = [] then ''['' @ join '','' partial @ '']''
         else ''['' @ [CHR 0x0A] @ indent' @ join ('','' @ [CHR 0x0A] @ indent') partial
              @ [CHR 0x0A] @ stepback @ '']'')"
| "stringify_gap gap indent (JObj kvs) =
     (let stepback = indent;
          indent' = indent @ gap;
          partial = map (\<lambda>(k, v). JSON_quote k @ '':'' @ (if gap = [] then [] else '' '')
                                   @ stringify_gap gap indent' v) kvs
      in if partial = [] then ''{}''
         else if gap = [] then ''{'' @ join '','' partial @ ''}''
         else ''{'' @ [CHR 0x0A] @ indent' @ join ('','' @ [CHR 0x0A] @ indent') partial
              @ [CHR 0x0A] @ stepback @ ''}'')"

text \<open>\<open>JSON.stringify(value)\<close> and \<open>JSON.stringify(value, null, 2)\<close>.\<close>

definition JSON_stringify :: "json \<Rightarrow> string" where
  "JSON_stringify v = stringify_gap [] [] v"

definition JSON_stringify_2 :: "json \<Rightarrow> string" where
  "JSON_stringify_2 v = stringify_gap ''  '' [] v"

text \<open>
  The own enumerable entries of a value, as \<open>Object.assign\<close> and the object spread
  copy them: the entries of an object, the indexed elements of an array, the indexed
  characters of a string, nothing for the other values. Both copy by assignment.
\<close>

definition own_entries :: "json \<Rightarrow> (string \<times> json) list" where
  "own_entries source =
     (case source of
        JObj kvs \<Rightarrow> kvs
      | JArr xs \<Rightarrow> zip (map show_nat [0..<length xs]) xs
      | JStr s \<Rightarrow> zip (map show_nat [0..<length s]) (map (\<lambda>c. JStr [c]) s)
      | _ \<Rightarrow> [])"

definition Object_assign :: "(string \<times> json) list \<Rightarrow> json \<Rightarrow> (string \<times> json) list" where
  "Object_assign target source = fold (\<lambda>(k, v) acc. obj_set acc k v) (own_entries source) target"

text \<open>
  A \<open>SchemaType\<close> value as the object it is: its fields in the order the interface
  declares them, which is the order every literal of the program writes them in; an
  absent or \<open>undefined\<close> field has no entry in the serialisation.
\<close>

fun schema_json :: "SchemaType \<Rightarrow> json" where
  "schema_json (SchemaType t ps it f rq en) = JObj
     ([(''type'', JStr t)]
      @ (case ps of None \<Rightarrow> []
         | Some kvs \<Rightarrow> [(''properties'', JObj (map (\<lambda>(k, v). (k, schema_json v)) kvs))])
      @ (case it of None \<Rightarrow> [] | Some i \<Rightarrow> [(''items'', schema_json i)])
      @ (case f of None \<Rightarrow> [] | Some s \<Rightarrow> [(''format'', JStr s)])
      @ (case rq of None \<Rightarrow> [] | Some r \<Rightarrow> [(''required'', JArr (map JStr r))])
      @ (case en of None \<Rightarrow> [] | Some es \<Rightarrow> [(''enum'', JArr (map schema_json es))]))"

section \<open>The unifier (\<open>mergeSchemas\<close>)\<close>

text \<open>\<open>JSON.stringify(schema)\<close> on a schema node.\<close>

definition stringify_schema :: "SchemaType \<Rightarrow> string" where
  "stringify_schema schema = JSON_stringify (schema_json schema)"

text \<open>The \<open>forEach\<close> loop that keeps the first schema of every serialisation.\<close>

fun uniqueLoop :: "SchemaType list \<Rightarrow> string set \<Rightarrow> SchemaType list \<Rightarrow> SchemaType list" where
  "uniqueLoop [] uniqueSchemaStrings uniqueSchemas = uniqueSchemas"
| "uniqueLoop (s # ss) uniqueSchemaStrings uniqueSchemas =
     (let sString = stringify_schema s in
      if sString \<notin> uniqueSchemaStrings
      then uniqueLoop ss (insert sString uniqueSchemaStrings) (uniqueSchemas @ [s])
      else uniqueLoop ss uniqueSchemaStrings uniqueSchemas)"

definition mergeSchemas :: "SchemaType list \<Rightarrow> SchemaType" where
  "mergeSchemas schemas =
     (if length schemas = 0 then type_only ''any''
      else if length schemas = 1 then schemas ! 0
      else
        let firstSchemaType = stringify_schema (schemas ! 0);
            allEffectivelySame =
              list_all (\<lambda>schema. stringify_schema schema = firstSchemaType) schemas
        in if allEffectivelySame then schemas ! 0
           else
             let uniqueSchemas = uniqueLoop schemas {} [] in
             if length uniqueSchemas = 1 then uniqueSchemas ! 0
             else SchemaType ''union'' None None None None (Some uniqueSchemas))"

section \<open>The structural inferrer (\<open>inferSchema\<close>)\<close>

text \<open>
  The body of the loop over \<open>Object.entries(data)\<close>: the state is the pair of
  \<open>properties\<close> and \<open>required\<close>; \<open>inferred\<close> is \<open>inferSchema(value)\<close>.
\<close>

definition entryStep ::
  "string \<Rightarrow> jsval \<Rightarrow> SchemaType \<Rightarrow> (string \<times> SchemaType) list \<times> string list
     \<Rightarrow> (string \<times> SchemaType) list \<times> string list" where
  "entryStep key value inferred st =
     (let properties = obj_set (fst st) key inferred;
          required = (if value \<noteq> VUndefined then snd st @ [key] else snd st)
      in (properties, required))"

fun inferSchema :: "jsval \<Rightarrow> SchemaType" where
  "inferSchema VNull = type_only ''null''"
| "inferSchema VUndefined = type_only ''null''"
| "inferSchema (VArr data) =
     (if length data = 0
      then SchemaType ''array'' None (Some (type_only ''any'')) None None None
      else
        let itemSchemas = map inferSchema data in
        SchemaType ''array'' None (Some (mergeSchemas itemSchemas)) None None None)"
| "inferSchema (VObj data) =
     (let st = fold (\<lambda>(key, value). entryStep key value (inferSchema value)) data ([], []);
          properties = fst st;
          required = snd st
      in SchemaType ''object'' (Some properties) None None
           (if length required > 0 then Some required else None) None)"
| "inferSchema data = inferPrimitiveSchema data"

section \<open>The interface renderer (src/generators/typescript.ts)\<close>

record GenerateOptions =
  inferOptional :: bool
  prettify :: bool
  interfaceName :: "string option"

text \<open>
  \<open>generateTypeScriptFromSchema(schema, options, depth)\<close>. The \<open>switch\<close> on
  \<open>schema.type\<close> is the chain of comparisons below, in the order of its cases.
\<close>

fun generateTypeScriptFromSchema :: "SchemaType \<Rightarrow> GenerateOptions \<Rightarrow> nat \<Rightarrow> string" where
  "generateTypeScriptFromSchema (SchemaType t ps it f rq en) options depth =
     (if t = ''null'' then ''null''
      else if t = ''string'' then
        (if f = Some ''date-time'' then ''Date''
         else if f = Some ''email'' then ''string''
         else if f = Some ''uuid'' then ''string''
         else ''string'')
      else if t = ''number'' then ''number''
      else if t = ''integer'' then ''number''
      else if t = ''boolean'' then ''boolean''
      else if t = ''array'' then
        (let itemType = (case it of
                           Some i \<Rightarrow> generateTypeScriptFromSchema i options (depth + 1)
                         | None \<Rightarrow> ''any'')
         in itemType @ ''[]'')
      else if t = ''object'' then
        (case ps of
           None \<Rightarrow> ''Record<string, any>''
         | Some entries \<Rightarrow>
             (let indent = concat (replicate (depth + 1) ''  '') in
              ''{'' @ [CHR 0x0A]
              @ concat (map (\<lambda>(key, value).
                   let isRequired = (case rq of None \<Rightarrow> False | Some r \<Rightarrow> key \<in> set r);
                       optionalMarker = (if \<not> isRequired \<and> inferOptional options then ''?'' else '''')
                   in indent @ key @ optionalMarker @ '': ''
                      @ generateTypeScriptFromSchema value options (depth + 1) @ '';'' @ [CHR 0x0A])
                 entries)
              @ concat (replicate depth ''  '') @ ''}''))
      else if t = ''union'' then
        (case en of
           Some es \<Rightarrow> join '' | '' (map (\<lambda>s. generateTypeScriptFromSchema s options depth) es)
         | None \<Rightarrow> ''any'')
      else ''any'')"

text \<open>
  \<open>generateTypeScript\<close>. The formatter (prettier's \<open>format\<close>) is an external library:
  it is the parameter \<open>format_ts\<close>, which returns \<open>None\<close> where \<open>format\<close> throws.
\<close>

definition generateTypeScript ::
  "(string \<Rightarrow> string option) \<Rightarrow> SchemaType \<Rightarrow> GenerateOptions \<Rightarrow> string" where
  "generateTypeScript format_ts schema options =
     (let name = (case interfaceName options of
                    None \<Rightarrow> ''GeneratedInterface''
                  | Some n \<Rightarrow> if n = [] then ''GeneratedInterface'' else n);
          output = ''interface '' @ name @ '' ''
                   @ generateTypeScriptFromSchema schema options 0 @ [CHR 0x0A]
      in if prettify options
         then (case format_ts output of Some formatted \<Rightarrow> formatted | None \<Rightarrow> output)
         else output)"

section \<open>The JSON-Schema renderer (src/generators/jsonSchema.ts)\<close>

text \<open>The property read \<open>node[k]\<close> on a JSON value.\<close>

fun json_get :: "json \<Rightarrow> string \<Rightarrow> json option" where
  "json_get (JObj kvs) k = obj_get kvs k"
| "json_get v k = None"

text \<open>
  \<open>generateJsonSchemaFromSchema\<close>. The node is built by assignments to fixed keys in
  the order written here; \<open>properties\<close> is filled by \<open>properties[key] = ...\<close> for the
  entries of the schema's \<open>properties\<close>. A \<open>format\<close> that is the empty string is falsy
  and is not carried over.
\<close>

fun generateJsonSchemaFromSchema :: "SchemaType \<Rightarrow> GenerateOptions \<Rightarrow> json" where
  "generateJsonSchemaFromSchema (SchemaType t ps it f rq en) options =
     (if t = ''null'' then JObj [(''type'', JStr ''null'')]
      else if t = ''string'' then
        JObj ([(''type'', JStr ''string'')]
              @ (case f of None \<Rightarrow> [] | Some s \<Rightarrow> if s = [] then [] else [(''format'', JStr s)]))
      else if t = ''number'' then JObj [(''type'', JStr ''number'')]
      else if t = ''integer'' then JObj [(''type'', JStr ''integer'')]
      else if t = ''boolean'' then JObj [(''type'', JStr ''boolean'')]
      else if t = ''array'' then
        JObj [(''type'', JStr ''array''),
              (''items'', (case it of
                             Some i \<Rightarrow> generateJsonSchemaFromSchema i options
                           | None \<Rightarrow> JObj []))]
      else if t = ''object'' then
        (let props = (case ps of
                        None \<Rightarrow> []
                      | Some entries \<Rightarrow>
                          fold (\<lambda>(key, value) acc.
                                  obj_set acc key (generateJsonSchemaFromSchema value options))
                               entries []);
             assigned = (if inferOptional options
                         then (case rq of
                                 Some r \<Rightarrow> if length r > 0 then Some r else None
                               | None \<Rightarrow> None)
                         else (case ps of
                                 Some entries \<Rightarrow> Some (map fst entries)
                               | None \<Rightarrow> None));
             kept = (case assigned of
                       Some r \<Rightarrow> if length r = 0 then None else Some r
                     | None \<Rightarrow> None)
         in JObj ([(''type'', JStr ''object''), (''properties'', JObj props)]
                  @ (case kept of None \<Rightarrow> [] | Some r \<Rightarrow> [(''required'', JArr (map JStr r))])))
      else if t = ''union'' then
        (case en of
           Some es \<Rightarrow>
             if length es > 0
             then JObj [(''anyOf'', JArr (map (\<lambda>s. generateJsonSchemaFromSchema s options) es))]
             else JObj [(''description'',
                         JStr ''Union type with no specific variants, effectively 'any'.'')]
         | None \<Rightarrow>
             JObj [(''description'',
                    JStr ''Union type with no specific variants, effectively 'any'.'')])
      else JObj [(''description'', JStr (''Represents type: '' @ t))])"

definition generateJsonSchema :: "SchemaType \<Rightarrow> GenerateOptions \<Rightarrow> string" where
  "generateJsonSchema schema options =
     (let title = (case interfaceName options of
                     None \<Rightarrow> ''GeneratedSchema''
                   | Some n \<Rightarrow> if n = [] then ''GeneratedSchema'' else n);
          output = JObj (Object_assign
                      [(''$schema'', JStr ''http://json-schema.org/draft-07/schema#''),
                       (''title'', JStr title)]
                      (generateJsonSchemaFromSchema schema options))
      in if prettify options then JSON_stringify_2 output else JSON_stringify output)"

section \<open>\<open>JSON.parse\<close>\<close>

text \<open>
  \<open>JSON.parse\<close> is a built-in of the platform; the parser below follows the JSON
  grammar (ECMA-404) as ECMA-262 applies it: insignificant white space, the three
  literals, numbers, strings with their escapes, arrays, and objects whose members are
  stored by assignment (a repeated key keeps its first position and its last value, array
  index keys are enumerated first). \<open>None\<close> is the \<open>SyntaxError\<close>. Strings are kept as
  UTF-8 bytes: an escape \<open>\\uXXXX\<close> is stored as the bytes of that code unit. (An escaped
  surrogate pair is therefore not joined into one character.) A number is
  the exact value of its literal, or an infinity when the literal exceeds the binary64
  range.

  The parser is driven by fuel. A call of \<open>parse_value\<close> on \<open>n\<close> characters needs fuel
  \<open>2 * n + 1\<close> at most, since every nested call has consumed a character or is the first
  value of an array; \<open>JSON_parse\<close> supplies \<open>2 * n + 2\<close>.
\<close>

definition is_ws :: "char \<Rightarrow> bool" where
  "is_ws c = (c = CHR '' '' \<or> c = CHR 0x09 \<or> c = CHR 0x0A \<or> c = CHR 0x0D)"

definition skip_ws :: "string \<Rightarrow> string" where
  "skip_ws cs = dropWhile is_ws cs"

definition is_hex_digit :: "char \<Rightarrow> bool" where
  "is_hex_digit c = (is_digit c \<or> (97 \<le> (of_char c :: nat) \<and> (of_char c :: nat) \<le> 102)
                     \<or> (65 \<le> (of_char c :: nat) \<and> (of_char c :: nat) \<le> 70))"

definition hex_val :: "char \<Rightarrow> nat" where
  "hex_val c = (let n = (of_char c :: nat) in
                if n \<ge> 97 then n - 87 else if n \<ge> 65 then n - 55 else n - 48)"

definition nat_of_hex :: "string \<Rightarrow> nat" where
  "nat_of_hex s = foldl (\<lambda>n c. 16 * n + hex_val c) 0 s"

definition utf8 :: "nat \<Rightarrow> string" where
  "utf8 n =
     (if n < 128 then [char_of n]
      else if n < 2048 then [char_of (192 + n div 64), char_of (128 + n mod 64)]
      else [char_of (224 + n div 4096), char_of (128 + (n div 64) mod 64), char_of (128 + n mod 64)])"

fun parse_string_body :: "string \<Rightarrow> string \<Rightarrow> (string \<times> string) option" where
  "parse_string_body [] acc = None"
| "parse_string_body (c # cs) acc =
     (if c = CHR 0x22 then Some (acc, cs)
      else if c = CHR 0x5C then
        (case cs of
           [] \<Rightarrow> None
         | e # cs' \<Rightarrow>
             if e = CHR 0x22 \<or> e = CHR 0x5C \<or> e = CHR ''/'' then parse_string_body cs' (acc @ [e])
             else if e = CHR ''b'' then parse_string_body cs' (acc @ [CHR 0x08])
             else if e = CHR ''f'' then parse_string_body cs' (acc @ [CHR 0x0C])
             else if e = CHR ''n'' then parse_string_body cs' (acc @ [CHR 0x0A])
             else if e = CHR ''r'' then parse_string_body cs' (acc @ [CHR 0x0D])
             else if e = CHR ''t'' then parse_string_body cs' (acc @ [CHR 0x09])
             else if e = CHR ''u'' then
               (if length cs' \<ge> 4 \<and> list_all is_hex_digit (take 4 cs')
                then parse_string_body (drop 4 cs') (acc @ utf8 (nat_of_hex (take 4 cs')))
                else None)
             else None)
      else if (of_char c :: nat) < 32 then None
      else parse_string_body cs (acc @ [c]))"

text \<open>
  A number literal: an optional minus sign, an integer part without a leading zero, an
  optional fraction and an optional exponent.
\<close>

definition lex_sign :: "string \<Rightarrow> bool \<times> string" where
  "lex_sign cs = (if cs \<noteq> [] \<and> hd cs = CHR ''-'' then (True, tl cs) else (False, cs))"

definition lex_int :: "string \<Rightarrow> (string \<times> string) option" where
  "lex_int cs =
     (let ip = takeWhile is_digit cs in
      if ip = [] \<or> (length ip > 1 \<and> hd ip = CHR ''0'') then None
      else Some (ip, dropWhile is_digit cs))"

definition lex_frac :: "string \<Rightarrow> (string \<times> string) option" where
  "lex_frac cs =
     (if cs \<noteq> [] \<and> hd cs = CHR ''.''
      then (if takeWhile is_digit (tl cs) = [] then None
            else Some (takeWhile is_digit (tl cs), dropWhile is_digit (tl cs)))
      else Some ([], cs))"

definition lex_exp :: "string \<Rightarrow> (int \<times> string) option" where
  "lex_exp cs =
     (if cs \<noteq> [] \<and> (hd cs = CHR ''e'' \<or> hd cs = CHR ''E'')
      then
        (let (eneg, es) = (case tl cs of
                             [] \<Rightarrow> (False, [])
                           | s # r \<Rightarrow> if s = CHR ''-'' then (True, r)
                                      else if s = CHR ''+'' then (False, r)
                                      else (False, s # r));
             ep = takeWhile is_digit es
         in if ep = [] then None
            else Some (if eneg then - int (nat_of_digits ep) else int (nat_of_digits ep),
                       dropWhile is_digit es))
      else Some (0, cs))"

definition number_of :: "bool \<Rightarrow> string \<Rightarrow> string \<Rightarrow> int \<Rightarrow> jsnum" where
  "number_of neg ip fp e =
     (let mant = (of_nat (nat_of_digits (ip @ fp)) :: rat);
          scale = e - int (length fp);
          mag = (if scale \<ge> 0 then mant * 10 ^ nat scale else mant / 10 ^ nat (- scale))
      in if mag \<ge> 2 ^ 1024 - 2 ^ 970
         then (if neg then NegInfinity else PosInfinity)
         else Finite (if neg then - mag else mag))"

definition parse_number :: "string \<Rightarrow> (jsnum \<times> string) option" where
  "parse_number cs =
     (case lex_sign cs of
        (neg, cs1) \<Rightarrow>
          (case lex_int cs1 of
             None \<Rightarrow> None
           | Some (ip, cs2) \<Rightarrow>
               (case lex_frac cs2 of
                  None \<Rightarrow> None
                | Some (fp, cs3) \<Rightarrow>
                    (case lex_exp cs3 of
                       None \<Rightarrow> None
                     | Some (e, cs4) \<Rightarrow> Some (number_of neg ip fp e, cs4)))))"

fun parse_value :: "nat \<Rightarrow> string \<Rightarrow> (json \<times> string) option"
  and parse_elements :: "nat \<Rightarrow> string \<Rightarrow> json list \<Rightarrow> (json \<times> string) option"
  and parse_members :: "nat \<Rightarrow> string \<Rightarrow> (string \<times> json) list \<Rightarrow> (json \<times> string) option" where
  "parse_value 0 cs = None"
| "parse_value (Suc fuel) cs =
     (case skip_ws cs of
        [] \<Rightarrow> None
      | c # rest \<Rightarrow>
          if c = CHR ''{'' then
            (case skip_ws rest of
               [] \<Rightarrow> None
             | d # rest' \<Rightarrow> if d = CHR ''}'' then Some (JObj [], rest') else parse_members fuel rest [])
          else if c = CHR ''['' then
            (case skip_ws rest of
               [] \<Rightarrow> None
             | d # rest' \<Rightarrow> if d = CHR '']'' then Some (JArr [], rest') else parse_elements fuel rest [])
          else if c = CHR 0x22 then
            (case parse_string_body rest [] of
               None \<Rightarrow> None
             | Some (s, rest') \<Rightarrow> Some (JStr s, rest'))
          else if take 4 (c # rest) = ''true'' then Some (JBool True, drop 4 (c # rest))
          else if take 5 (c # rest) = ''false'' then Some (JBool False, drop 5 (c # rest))
          else if take 4 (c # rest) = ''null'' then Some (JNull, drop 4 (c # rest))
          else (case parse_number (c # rest) of
                  None \<Rightarrow> None
                | Some (n, rest') \<Rightarrow> Some (JNum n, rest')))"
| "parse_elements 0 cs acc = None"
| "parse_elements (Suc fuel) cs acc =
     (case parse_value fuel cs of
        None \<Rightarrow> None
      | Some (v, rest) \<Rightarrow>
          (case skip_ws rest of
             [] \<Rightarrow> None
           | d # rest' \<Rightarrow>
               if d = CHR '','' then parse_elements fuel rest' (acc @ [v])
               else if d = CHR '']'' then Some (JArr (acc @ [v]), rest')
               else None))"
| "parse_members 0 cs acc = None"
| "parse_members (Suc fuel) cs acc =
     (case skip_ws cs of
        [] \<Rightarrow> None
      | q # rest \<Rightarrow>
          if q \<noteq> CHR 0x22 then None
          else
            (case parse_string_body rest [] of
               None \<Rightarrow> None
             | Some (key, rest1) \<Rightarrow>
                 (case skip_ws rest1 of
                    [] \<Rightarrow> None
                  | colon # rest2 \<Rightarrow>
                      if colon \<noteq> CHR '':'' then None
                      else
                        (case parse_value fuel rest2 of
                           None \<Rightarrow> None
                         | Some (v, rest3) \<Rightarrow>
                             (case skip_ws rest3 of
                                [] \<Rightarrow> None
                              | d # rest4 \<Rightarrow>
                                  if d = CHR '','' then parse_members fuel rest4 (obj_set acc key v)
                                  else if d = CHR ''}'' then Some (JObj (obj_set acc key v), rest4)
                                  else None)))))"

definition JSON_parse :: "string \<Rightarrow> json option" where
  "JSON_parse text =
     (case parse_value (2 * length text + 2) text of
        None \<Rightarrow> None
      | Some (v, rest) \<Rightarrow> if skip_ws rest = [] then Some v else None)"

section \<open>The interface branch of \<open>dedupeUnions\<close> (src/index.ts)\<close>

text \<open>
  The two patterns of the interface branch use word boundaries, a back-reference and a
  negative look-ahead, so they are matched as ECMA-262 matches them: by backtracking, with
  a continuation for the rest of the pattern. \<open>RStar\<close> is the greedy star, \<open>ROr\<close> tries
  its left alternative first, \<open>RBytes\<close> is a literal. Text is UTF-8 bytes; the classes
  \<open>\\w\<close> and \<open>\\s\<close> are written out for that encoding.
\<close>

datatype re =
    RCls "(char \<times> char) list"
  | RBytes string
  | RCat re re
  | ROr re re
  | RStar re
  | REmpty
  | RGroup nat re
  | RBackref nat
  | RWordB
  | RNotAhead re

type_synonym captures = "(nat \<times> string) list"

definition is_word_char :: "char \<Rightarrow> bool" where
  "is_word_char c = in_cls [(CHR ''a'', CHR ''z''), (CHR ''A'', CHR ''Z''), (CHR ''0'', CHR ''9''), (CHR ''_'', CHR ''_'')] c"

definition word_at :: "string \<Rightarrow> int \<Rightarrow> bool" where
  "word_at s i = (0 \<le> i \<and> i < int (length s) \<and> is_word_char (s ! nat i))"

fun cap_set :: "captures \<Rightarrow> nat \<Rightarrow> string \<Rightarrow> captures" where
  "cap_set [] n v = [(n, v)]"
| "cap_set ((n', v') # cs) n v = (if n' = n then (n, v) # cs else (n', v') # cap_set cs n v)"

fun cap_get :: "captures \<Rightarrow> nat \<Rightarrow> string option" where
  "cap_get [] n = None"
| "cap_get ((n', v') # cs) n = (if n' = n then Some v' else cap_get cs n)"

text \<open>
  \<open>rmatch r s i c k\<close>: match \<open>r\<close> in \<open>s\<close> at index \<open>i\<close> with captures \<open>c\<close>, then
  continue with \<open>k\<close>. An iteration of a star that consumes nothing is rejected.
\<close>

function rmatch :: "re \<Rightarrow> string \<Rightarrow> nat \<Rightarrow> captures
    \<Rightarrow> (nat \<Rightarrow> captures \<Rightarrow> (nat \<times> captures) option) \<Rightarrow> (nat \<times> captures) option" where
  "rmatch (RCls rs) s i c k = (if i < length s \<and> in_cls rs (s ! i) then k (i + 1) c else None)"
| "rmatch (RBytes bs) s i c k = (if take (length bs) (drop i s) = bs then k (i + length bs) c else None)"
| "rmatch (RCat a b) s i c k = rmatch a s i c (\<lambda>j c'. rmatch b s j c' k)"
| "rmatch (ROr a b) s i c k =
     (case rmatch a s i c k of Some x \<Rightarrow> Some x | None \<Rightarrow> rmatch b s i c k)"
| "rmatch (RStar a) s i c k =
     (case rmatch a s i c (\<lambda>j c'. if i < j \<and> j \<le> length s then rmatch (RStar a) s j c' k else None) of
        Some x \<Rightarrow> Some x
      | None \<Rightarrow> k i c)"
| "rmatch REmpty s i c k = k i c"
| "rmatch (RGroup n a) s i c k = rmatch a s i c (\<lambda>j c'. k j (cap_set c' n (take (j - i) (drop i s))))"
| "rmatch (RBackref n) s i c k =
     (case cap_get c n of
        None \<Rightarrow> k i c
      | Some t \<Rightarrow> if take (length t) (drop i s) = t then k (i + length t) c else None)"
| "rmatch RWordB s i c k = (if word_at s (int i - 1) \<noteq> word_at s (int i) then k i c else None)"
| "rmatch (RNotAhead a) s i c k =
     (case rmatch a s i c (\<lambda>j c'. Some (j, c')) of Some x \<Rightarrow> None | None \<Rightarrow> k i c)"
  by pat_completeness auto
termination
  by (relation "measures [\<lambda>(r, s, i, c, k). size r, \<lambda>(r, s, i, c, k). length s - i]") auto


text \<open>A match never ends before it starts; the loop over the matches rests on it.\<close>

lemma rmatch_advances:
  "rmatch r s i c k = Some x \<Longrightarrow> \<exists>j c'. i \<le> j \<and> k j c' = Some x"
proof (induction r s i c k arbitrary: x rule: rmatch.induct)
  case (1 rs s i c k)
  then have "k (i + 1) c = Some x" by (auto split: if_splits)
  then show ?case by (meson le_add1)
next
  case (2 bs s i c k)
  then have "k (i + length bs) c = Some x" by (auto split: if_splits)
  then show ?case by (meson le_add1)
next
  case (8 n s i c k)
  show ?case
  proof (cases "cap_get c n")
    case None
    with "8.prems" show ?thesis by auto
  next
    case (Some t)
    with "8.prems" have "k (i + length t) c = Some x" by (auto split: if_splits)
    then show ?thesis by (meson le_add1)
  qed
next
  case (3 a b s i c k)
  from "3.IH"(2) [OF "3.prems" [simplified]] obtain j c' where j: "i \<le> j" "rmatch b s j c' k = Some x"
    by blast
  from "3.IH"(1) [OF j(2)] j(1) show ?case by (meson order_trans)
next
  case (5 a s i c k)
  show ?case
  proof (cases "rmatch a s i c (\<lambda>j c'. if i < j \<and> j \<le> length s then rmatch (RStar a) s j c' k else None)")
    case None
    with "5.prems" show ?thesis by auto
  next
    case (Some y)
    with "5.prems" have y: "y = x" by simp
    from "5.IH"(2) [OF Some] obtain j c' where j: "i \<le> j"
      "(if i < j \<and> j \<le> length s then rmatch (RStar a) s j c' k else None) = Some y" by blast
    then have c: "i < j \<and> j \<le> length s" and r: "rmatch (RStar a) s j c' k = Some y"
      by (auto split: if_splits)
    from "5.IH"(1) [OF c r] obtain j' c'' where "j \<le> j'" "k j' c'' = Some y" by blast
    with j(1) y show ?thesis by (meson order_trans)
  qed
next
  case (7 n a s i c k)
  from "7.IH" [OF "7.prems" [simplified]] show ?case by blast
qed (auto split: if_splits option.splits)

text \<open>\<open>RegExpBuiltinExec\<close> without the sticky flag: the first index from \<open>p\<close> on at which the pattern matches.\<close>

function find_match :: "re \<Rightarrow> string \<Rightarrow> nat \<Rightarrow> (nat \<times> nat \<times> captures) option" where
  "find_match r s p =
     (if p > length s then None
      else (case rmatch r s p [] (\<lambda>j c. Some (j, c)) of
              Some (e, c) \<Rightarrow> Some (p, e, c)
            | None \<Rightarrow> find_match r s (p + 1)))"
  by pat_completeness auto
termination
  by (relation "measure (\<lambda>(r, s, p). length s + 1 - p)") auto

declare find_match.simps [simp del]

lemma find_match_bounds:
  "find_match r s p = Some (b, e, c) \<Longrightarrow> p \<le> b \<and> b \<le> length s \<and> b \<le> e"
proof (induction r s p rule: find_match.induct)
  case (1 r s p)
  show ?case
  proof (cases "rmatch r s p [] (\<lambda>j c. Some (j, c))")
    case None
    with "1.prems" have le: "\<not> p > length s" and f: "find_match r s (p + 1) = Some (b, e, c)"
      by (auto simp: find_match.simps [of r s p] split: if_splits)
    from "1.IH" [OF le None f] show ?thesis by simp
  next
    case (Some y)
    obtain e' c' where y: "y = (e', c')" by (cases y)
    from rmatch_advances [OF Some] y have "p \<le> e'" by auto
    with "1.prems" Some y show ?thesis
      by (auto simp: find_match.simps [of r s p] split: if_splits)
  qed
qed

text \<open>
  The matches of a global pattern, as \<open>String.prototype.replace\<close> collects them: the
  search resumes at the end of the last match, one index further after an empty match.
\<close>

function all_matches :: "re \<Rightarrow> string \<Rightarrow> nat \<Rightarrow> (nat \<times> nat \<times> captures) list" where
  "all_matches r s lastIndex =
     (case find_match r s lastIndex of
        None \<Rightarrow> []
      | Some (b, e, c) \<Rightarrow> (b, e, c) # all_matches r s (if e = b then e + 1 else e))"
  by pat_completeness auto
termination
proof (relation "measure (\<lambda>(r, s, p). length s + 1 - p)", goal_cases)
  case 1
  then show ?case by simp
next
  case (2 r s lastIndex x2 b y e c)
  then have "find_match r s lastIndex = Some (b, e, c)" by simp
  from find_match_bounds [OF this] show ?case by auto
qed

declare all_matches.simps [simp del]

text \<open>The result of \<open>replace\<close>: the text between the matches, and each match replaced.\<close>

fun build :: "string \<Rightarrow> (string \<Rightarrow> captures \<Rightarrow> string) \<Rightarrow> nat \<Rightarrow> (nat \<times> nat \<times> captures) list \<Rightarrow> string" where
  "build s replacement nextSourcePosition [] = drop nextSourcePosition s"
| "build s replacement nextSourcePosition ((position, e, c) # results) =
     (if position \<ge> nextSourcePosition
      then take (position - nextSourcePosition) (drop nextSourcePosition s)
           @ replacement (take (e - position) (drop position s)) c
           @ build s replacement e results
      else build s replacement nextSourcePosition results)"

definition replace_global :: "re \<Rightarrow> (string \<Rightarrow> captures \<Rightarrow> string) \<Rightarrow> string \<Rightarrow> string" where
  "replace_global r replacement s = build s replacement 0 (all_matches r s 0)"

definition cap :: "captures \<Rightarrow> nat \<Rightarrow> string" where
  "cap c n = (case cap_get c n of None \<Rightarrow> [] | Some v \<Rightarrow> v)"

text \<open>\<open>\\w\<close>, \<open>\\s\<close> (white space and line terminators) and \<^verbatim>\<open>\b\w+(?:\[\])?\b\<close>.\<close>

definition re_word :: re where
  "re_word = RCls [(CHR ''a'', CHR ''z''), (CHR ''A'', CHR ''Z''), (CHR ''0'', CHR ''9''), (CHR ''_'', CHR ''_'')]"

definition re_space :: re where
  "re_space =
     ROr (RCls [(CHR 0x09, CHR 0x0D), (CHR '' '', CHR '' '')])
    (ROr (RBytes [CHR 0xC2, CHR 0xA0])
    (ROr (RBytes [CHR 0xE1, CHR 0x9A, CHR 0x80])
    (ROr (RCat (RBytes [CHR 0xE2, CHR 0x80])
               (RCls [(CHR 0x80, CHR 0x8A), (CHR 0xA8, CHR 0xA9), (CHR 0xAF, CHR 0xAF)]))
    (ROr (RBytes [CHR 0xE2, CHR 0x81, CHR 0x9F])
    (ROr (RBytes [CHR 0xE3, CHR 0x80, CHR 0x80])
         (RBytes [CHR 0xEF, CHR 0xBB, CHR 0xBF]))))))"

definition re_member :: re where
  "re_member =
     RCat RWordB (RCat (RCat re_word (RStar re_word))
       (RCat (ROr (RCat (RBytes ''['') (RBytes '']'')) REmpty) RWordB))"

text \<open>\<^verbatim>\<open>/(\b\w+(?:\[\])?\b)\s*\|\s*\1(?!\w)/g\<close>\<close>

definition re_repeated :: re where
  "re_repeated =
     RCat (RGroup 1 re_member) (RCat (RStar re_space) (RCat (RBytes ''|'')
       (RCat (RStar re_space) (RCat (RBackref 1) (RNotAhead re_word)))))"

text \<open>\<^verbatim>\<open>/(\b\w+(?:\[\])?\b)\s*\|\s*(\b\w+(?:\[\])?\b)/g\<close>\<close>

definition re_pair :: re where
  "re_pair =
     RCat (RGroup 1 re_member) (RCat (RStar re_space) (RCat (RBytes ''|'')
       (RCat (RStar re_space) (RGroup 2 re_member))))"

text \<open>
  One round of the \<open>do ... while\<close> loop: the first \<open>replace\<close> puts \<open>$1\<close> for a
  repeated member, the second swaps a pair when \<open>p1.localeCompare(p2) > 0\<close>.
  \<open>localeCompare\<close> is the platform's collation and is a parameter.
\<close>

definition dedupePass :: "(string \<Rightarrow> string \<Rightarrow> int) \<Rightarrow> string \<Rightarrow> string" where
  "dedupePass localeCompare dedupedText =
     replace_global re_pair
       (\<lambda>match c. let p1 = cap c 1; p2 = cap c 2 in
                   if localeCompare p1 p2 > 0 then p2 @ '' | '' @ p1 else match)
       (replace_global re_repeated (\<lambda>match c. cap c 1) dedupedText)"

text \<open>
  The loop runs until a round changes nothing. Nothing in the code bounds the number of
  rounds, so the loop is a partial function: \<open>None\<close> is a loop that does not end.
\<close>

partial_function (option) dedupeLoop :: "(string \<Rightarrow> string) \<Rightarrow> string \<Rightarrow> string option" where
  "dedupeLoop pass dedupedText =
     (let previousText = dedupedText;
          dedupedText' = pass dedupedText
      in if previousText \<noteq> dedupedText' then dedupeLoop pass dedupedText' else Some dedupedText')"

section \<open>The JSON-Schema branch of \<open>dedupeUnions\<close> (src/index.ts)\<close>

text \<open>
  The filter of \<open>walk\<close>: a member of \<open>anyOf\<close> is kept when its serialisation has not
  been seen before.
\<close>

fun dedupeBySeen :: "json list \<Rightarrow> string set \<Rightarrow> json list" where
  "dedupeBySeen [] seen = []"
| "dedupeBySeen (sub # subs) seen =
     (let key = JSON_stringify sub in
      if key \<in> seen then dedupeBySeen subs seen
      else sub # dedupeBySeen subs (insert key seen))"

text \<open>
  The body of \<open>walk\<close> on one node, before it descends: when \<open>node.anyOf\<close> is an array,
  it is replaced by its filtered copy, and when one member is left, that member's entries
  are assigned to the node and \<open>anyOf\<close> is deleted.
\<close>

definition dedupeAnyOf :: "(string \<times> json) list \<Rightarrow> (string \<times> json) list" where
  "dedupeAnyOf node =
     (case obj_get node ''anyOf'' of
        Some (JArr subs) \<Rightarrow>
          (let filtered = dedupeBySeen subs {};
               node1 = obj_set node ''anyOf'' (JArr filtered)
           in if length filtered = 1
              then obj_delete (Object_assign node1 (filtered ! 0)) ''anyOf''
              else node1)
      | _ \<Rightarrow> node)"

text \<open>
  \<open>walk\<close> descends into the values of the node as \<open>dedupeAnyOf\<close> left it. These are
  not all subterms of the node, but each lies strictly below it; the nesting depth is the
  measure of the recursion.
\<close>

fun height :: "json \<Rightarrow> nat" where
  "height (JArr xs) = Suc (foldr max (map height xs) 0)"
| "height (JObj kvs) = Suc (foldr max (map (\<lambda>(k, v). height v) kvs) 0)"
| "height v = 0"

lemma foldr_max_ge: "(n::nat) \<in> set ns \<Longrightarrow> n \<le> foldr max ns m"
  by (induction ns) auto

lemma foldr_max_less:
  "(\<And>n. n \<in> set ns \<Longrightarrow> n < b) \<Longrightarrow> m < b \<Longrightarrow> foldr max ns m < (b::nat)"
  by (induction ns) auto

lemma height_elem: "x \<in> set xs \<Longrightarrow> height x < height (JArr xs)"
  using foldr_max_ge [of "height x" "map height xs" 0] by (simp add: less_Suc_eq_le)

lemma height_value: "(k, v) \<in> set kvs \<Longrightarrow> height v < height (JObj kvs)"
  using foldr_max_ge [of "height v" "map (\<lambda>(k, v). height v) kvs" 0]
  by (force simp: less_Suc_eq_le)

lemma height_sub_array:
  assumes "set ys \<subseteq> set xs"
  shows "height (JArr ys) \<le> height (JArr xs)"
proof -
  have "\<And>n. n \<in> set (map height ys) \<Longrightarrow> n < height (JArr xs)"
    using assms height_elem by auto
  then have "foldr max (map height ys) 0 < height (JArr xs)"
    by (intro foldr_max_less) simp_all
  then show ?thesis by simp
qed

declare height.simps(1,2) [simp del]

lemma obj_replace_values:
  "(a, b) \<in> set (obj_replace kvs k v) \<Longrightarrow> b = v \<or> b \<in> snd ` set kvs"
  by (induction kvs) (force split: if_splits)+

lemma obj_insert_index_values:
  "(a, b) \<in> set (obj_insert_index kvs k v) \<Longrightarrow> b = v \<or> b \<in> snd ` set kvs"
  by (induction kvs) (force split: if_splits)+

lemma obj_set_values:
  "(a, b) \<in> set (obj_set kvs k v) \<Longrightarrow> b = v \<or> b \<in> snd ` set kvs"
  using obj_replace_values [of a b kvs k v] obj_insert_index_values [of a b kvs k v]
  by (force simp: obj_set_def split: if_splits)

lemma obj_delete_values:
  "(a, b) \<in> set (obj_delete kvs k) \<Longrightarrow> b \<in> snd ` set kvs"
  by (induction kvs) (force split: if_splits)+

lemma fold_obj_set_values:
  "(a, b) \<in> set (fold (\<lambda>(k, v) acc. obj_set acc k v) es target)
     \<Longrightarrow> b \<in> snd ` set target \<or> b \<in> snd ` set es"
proof (induction es arbitrary: target)
  case Nil
  then show ?case by force
next
  case (Cons e es)
  obtain k v where e: "e = (k, v)" by (cases e)
  from Cons.prems have "(a, b) \<in> set (fold (\<lambda>(k, v) acc. obj_set acc k v) es (obj_set target k v))"
    unfolding e by simp
  then have "b \<in> snd ` set (obj_set target k v) \<or> b \<in> snd ` set es"
    by (rule Cons.IH)
  then show ?case
  proof
    assume "b \<in> snd ` set (obj_set target k v)"
    then obtain a' where "(a', b) \<in> set (obj_set target k v)" by force
    then have "b = v \<or> b \<in> snd ` set target" by (rule obj_set_values)
    then show ?thesis unfolding e by force
  next
    assume "b \<in> snd ` set es"
    then show ?thesis by force
  qed
qed

lemma dedupeBySeen_subset: "set (dedupeBySeen subs seen) \<subseteq> set subs"
  by (induction subs arbitrary: seen) (auto simp: Let_def)

lemma own_entries_height:
  assumes "(k, v) \<in> set (own_entries source)"
  shows "height v \<le> height source"
proof (cases source)
  case (JArr xs)
  with assms have "v \<in> set xs" by (auto simp: own_entries_def dest: set_zip_rightD)
  then show ?thesis using height_elem [of v xs] JArr by simp
next
  case (JObj kvs)
  with assms show ?thesis using height_value [of k v kvs] by (simp add: own_entries_def)
next
  case (JStr s)
  with assms have "v \<in> set (map (\<lambda>c. JStr [c]) s)"
    by (auto simp: own_entries_def dest!: set_zip_rightD)
  then show ?thesis by auto
qed (use assms in \<open>auto simp: own_entries_def\<close>)

lemma obj_get_member: "obj_get node k = Some a \<Longrightarrow> (k, a) \<in> set node"
  by (induction node) (auto split: if_splits)

lemma dedupeAnyOf_height:
  assumes "(k, v) \<in> set (dedupeAnyOf node)"
  shows "height v < height (JObj node)"
proof (cases "obj_get node ''anyOf''")
  case None
  with assms show ?thesis by (simp add: dedupeAnyOf_def height_value)
next
  case (Some a)
  have a_in: "(''anyOf'', a) \<in> set node"
    using Some by (rule obj_get_member)
  show ?thesis
  proof (cases a)
    case (JArr subs)
    define filtered where "filtered = dedupeBySeen subs {}"
    define node1 where "node1 = obj_set node ''anyOf'' (JArr filtered)"
    have hf: "height (JArr filtered) \<le> height (JArr subs)"
      unfolding filtered_def by (rule height_sub_array) (rule dedupeBySeen_subset)
    have ha: "height (JArr subs) < height (JObj node)"
      using height_value [OF a_in] JArr by simp
    have n1: "height w < height (JObj node)" if "(j, w) \<in> set node1" for j w
    proof -
      from that have "w = JArr filtered \<or> w \<in> snd ` set node"
        unfolding node1_def by (rule obj_set_values)
      then show ?thesis
      proof
        assume "w = JArr filtered"
        then show ?thesis using hf ha by simp
      next
        assume "w \<in> snd ` set node"
        then obtain j' where "(j', w) \<in> set node" by force
        then show ?thesis by (rule height_value)
      qed
    qed
    show ?thesis
    proof (cases "length filtered = 1")
      case False
      with assms Some JArr have "(k, v) \<in> set node1"
        by (simp add: dedupeAnyOf_def Let_def filtered_def node1_def)
      then show ?thesis by (rule n1)
    next
      case True
      with assms Some JArr
      have "(k, v) \<in> set (obj_delete (Object_assign node1 (filtered ! 0)) ''anyOf'')"
        by (simp add: dedupeAnyOf_def Let_def filtered_def node1_def)
      then have "v \<in> snd ` set (Object_assign node1 (filtered ! 0))"
        by (rule obj_delete_values)
      then obtain k' where "(k', v) \<in> set (Object_assign node1 (filtered ! 0))" by force
      then have "v \<in> snd ` set node1 \<or> v \<in> snd ` set (own_entries (filtered ! 0))"
        unfolding Object_assign_def by (rule fold_obj_set_values)
      then show ?thesis
      proof
        assume "v \<in> snd ` set node1"
        then obtain j where "(j, v) \<in> set node1" by force
        then show ?thesis by (rule n1)
      next
        assume "v \<in> snd ` set (own_entries (filtered ! 0))"
        then obtain j where "(j, v) \<in> set (own_entries (filtered ! 0))" by force
        then have "height v \<le> height (filtered ! 0)" by (rule own_entries_height)
        moreover have "filtered ! 0 \<in> set filtered" using True by (cases filtered) auto
        then have "height (filtered ! 0) < height (JArr filtered)" by (rule height_elem)
        ultimately show ?thesis using hf ha by simp
      qed
    qed
  qed (use assms Some in \<open>simp_all add: dedupeAnyOf_def height_value\<close>)
qed

text \<open>
  \<open>walk\<close>: only objects and arrays pass the test \<open>node && typeof node === 'object'\<close>;
  an array has no \<open>anyOf\<close> property, so its elements are walked as they are. The
  document is a tree, so walking the values in place is mapping \<open>walk\<close> over them.
\<close>

function walk :: "json \<Rightarrow> json" where
  "walk (JObj node) = JObj (map (\<lambda>(k, v). (k, walk v)) (dedupeAnyOf node))"
| "walk (JArr xs) = JArr (map walk xs)"
| "walk JNull = JNull"
| "walk (JBool b) = JBool b"
| "walk (JNum n) = JNum n"
| "walk (JStr s) = JStr s"
  by pat_completeness auto
termination
  by (relation "measure height") (auto simp: height_elem dedupeAnyOf_height)

text \<open>
  The body of \<open>dedupeUnions\<close> for a \<open>format\<close> other than \<open>'typescript'\<close>: the \<open>catch\<close>
  returns the text when \<open>JSON.parse\<close> throws.
\<close>

definition dedupeUnions_jsonschema :: "string \<Rightarrow> bool \<Rightarrow> string" where
  "dedupeUnions_jsonschema text pretty =
     (case JSON_parse text of
        None \<Rightarrow> text
      | Some obj \<Rightarrow> if pretty then JSON_stringify_2 (walk obj) else JSON_stringify (walk obj))"

text \<open>\<open>dedupeUnions(text, format, prettify)\<close>, given the platform's \<open>localeCompare\<close>.\<close>

datatype output_format = Typescript | Jsonschema

definition dedupeUnions ::
  "(string \<Rightarrow> string \<Rightarrow> int) \<Rightarrow> string \<Rightarrow> output_format \<Rightarrow> bool \<Rightarrow> string option" where
  "dedupeUnions localeCompare text fmt pretty =
     (if fmt = Typescript then dedupeLoop (dedupePass localeCompare) text
      else Some (dedupeUnions_jsonschema text pretty))"

text \<open>
  A comparison by code units, with the sign convention of \<open>localeCompare\<close>; it stands in
  for the collation where an example is evaluated.
\<close>

fun bytewise :: "string \<Rightarrow> string \<Rightarrow> int" where
  "bytewise [] [] = 0"
| "bytewise [] (y # ys) = - 1"
| "bytewise (x # xs) [] = 1"
| "bytewise (x # xs) (y # ys) =
     (if (of_char x :: nat) < of_char y then - 1
      else if (of_char y :: nat) < of_char x then 1
      else bytewise xs ys)"

section \<open>Structural equality of schema nodes, as the specification words it\<close>

text \<open>
  This definition follows the data model of the specification, not the code: two nodes
  are structurally equal when they have the same type tag and format, structurally equal
  element types, the same field names with structurally equal children (a mapping, whose
  order is irrelevant), the same set of present fields, and the same set of union
  children up to structural equality. It is what \<open>mergeSchemas\<close>, which compares
  serialisations, is compared with.
\<close>

fun struct_eq :: "SchemaType \<Rightarrow> SchemaType \<Rightarrow> bool" where
  "struct_eq (SchemaType t ps it f rq en) (SchemaType t' ps' it' f' rq' en') =
     (t = t' \<and> f = f'
      \<and> (case (it, it') of
            (None, None) \<Rightarrow> True
          | (Some i, Some i') \<Rightarrow> struct_eq i i'
          | _ \<Rightarrow> False)
      \<and> (case (ps, ps') of
            (None, None) \<Rightarrow> True
          | (Some kvs, Some kvs') \<Rightarrow>
              fst ` set kvs = fst ` set kvs'
              \<and> (\<forall>(k, v) \<in> set kvs. \<forall>(k', v') \<in> set kvs'. k = k' \<longrightarrow> struct_eq v v')
          | _ \<Rightarrow> False)
      \<and> set (case rq of None \<Rightarrow> [] | Some r \<Rightarrow> r) = set (case rq' of None \<Rightarrow> [] | Some r \<Rightarrow> r)
      \<and> (case (en, en') of
            (None, None) \<Rightarrow> True
          | (Some es, Some es') \<Rightarrow>
              (\<forall>e \<in> set es. \<exists>e' \<in> set es'. struct_eq e e')
              \<and> (\<forall>e' \<in> set es'. \<exists>e \<in> set es. struct_eq e e')
          | _ \<Rightarrow> False))"

section \<open>Deduplication in first-seen order, as the specification words it\<close>

text \<open>
  This definition follows the specification, not the code: of the elements with the same
  key the first one is kept, and the kept elements stand in the order of the list. The
  loop of \<open>mergeSchemas\<close> is compared with it, the key being the serialisation.
\<close>

fun first_seen :: "('a \<Rightarrow> 'k) \<Rightarrow> 'a list \<Rightarrow> 'a list" where
  "first_seen key [] = []"
| "first_seen key (x # xs) = x # first_seen key (filter (\<lambda>y. key y \<noteq> key x) xs)"


section \<open>The parser's fuel\<close>

text \<open>
  Every call of the parser that succeeds consumes input, and from \<open>2 * n + 1\<close> on the
  fuel does not change the result on a text of \<open>n\<close> characters: \<open>JSON_parse\<close> never
  fails for lack of fuel.
\<close>

lemma skip_ws_length: "length (skip_ws cs) \<le> length cs"
  by (simp add: skip_ws_def length_dropWhile_le)

lemma skip_ws_Cons: "skip_ws cs = c # rest \<Longrightarrow> length rest < length cs"
  using skip_ws_length [of cs] by simp

lemma parse_string_body_length:
  "parse_string_body cs acc = Some (s, r) \<Longrightarrow> length r < length cs"
  by (induction cs acc rule: parse_string_body.induct) (simp_all split: if_splits list.splits)

lemma lex_sign_length: "lex_sign cs = (neg, r) \<Longrightarrow> length r \<le> length cs"
  by (auto simp: lex_sign_def split: if_splits)

lemma lex_int_length: "lex_int cs = Some (ip, r) \<Longrightarrow> length r < length cs"
proof -
  assume a: "lex_int cs = Some (ip, r)"
  then have ip: "takeWhile is_digit cs \<noteq> []" and r: "r = dropWhile is_digit cs"
    by (auto simp: lex_int_def Let_def split: if_splits)
  have "length (takeWhile is_digit cs) + length (dropWhile is_digit cs) = length cs"
    by (metis length_append takeWhile_dropWhile_id)
  with ip r show ?thesis by (cases "takeWhile is_digit cs") auto
qed

lemma lex_frac_length: "lex_frac cs = Some (fp, r) \<Longrightarrow> length r \<le> length cs"
  using length_dropWhile_le [of is_digit "tl cs"]
  by (auto simp: lex_frac_def split: if_splits)

lemma exp_sign_length:
  "(case xs of
      [] \<Rightarrow> (False, [])
    | s # r \<Rightarrow> if s = CHR ''-'' then (True, r)
               else if s = CHR ''+'' then (False, r)
               else (False, s # r)) = (eneg, es) \<Longrightarrow> length es \<le> length xs"
  by (cases xs) (auto split: if_splits)

lemma lex_exp_length: "lex_exp cs = Some (e, r) \<Longrightarrow> length r \<le> length cs"
proof (cases "cs \<noteq> [] \<and> (hd cs = CHR ''e'' \<or> hd cs = CHR ''E'')")
  case False
  assume "lex_exp cs = Some (e, r)"
  with False show ?thesis by (auto simp: lex_exp_def)
next
  case True
  assume a: "lex_exp cs = Some (e, r)"
  obtain eneg es where es: "(case tl cs of
                             [] \<Rightarrow> (False, [])
                           | s # r \<Rightarrow> if s = CHR ''-'' then (True, r)
                                      else if s = CHR ''+'' then (False, r)
                                      else (False, s # r)) = (eneg, es)"
    by force
  then have "length es \<le> length (tl cs)"
    by (rule exp_sign_length)
  moreover from a True es have "r = dropWhile is_digit es"
    by (auto simp: lex_exp_def Let_def split: if_splits)
  ultimately show ?thesis using length_dropWhile_le [of is_digit es] by simp
qed

lemma parse_number_length:
  "parse_number cs = Some (n, r) \<Longrightarrow> length r < length cs"
  by (auto simp: parse_number_def split: prod.splits option.splits
      dest!: lex_sign_length lex_int_length lex_frac_length lex_exp_length)


lemma literal_rest: "take n xs = ys \<Longrightarrow> length ys = Suc k \<Longrightarrow> length (drop n xs) < length xs"
  by (cases "n \<le> length xs") auto

lemma parse_rest_length:
  "(\<forall>cs v r. parse_value n cs = Some (v, r) \<longrightarrow> length r < length cs)
   \<and> (\<forall>cs acc v r. parse_elements n cs acc = Some (v, r) \<longrightarrow> length r < length cs)
   \<and> (\<forall>cs acc v r. parse_members n cs acc = Some (v, r) \<longrightarrow> length r < length cs)"
proof (induction n)
  case 0
  then show ?case by simp
next
  case (Suc n)
  note IHv = Suc.IH [THEN conjunct1, rule_format]
  note IHe = Suc.IH [THEN conjunct2, THEN conjunct1, rule_format]
  note IHm = Suc.IH [THEN conjunct2, THEN conjunct2, rule_format]
  have v: "length r < length cs" if a: "parse_value (Suc n) cs = Some (v, r)" for cs v r
  proof (cases "skip_ws cs")
    case Nil
    with a show ?thesis by simp
  next
    case (Cons c rest)
    note l = skip_ws_Cons [OF Cons]
    have l': "length (c # rest) \<le> length cs" using l by simp
    consider (obj) "c = CHR ''{''" | (arr) "c \<noteq> CHR ''{''" "c = CHR ''[''"
      | (str) "c \<noteq> CHR ''{''" "c \<noteq> CHR ''[''" "c = CHR 0x22"
      | (other) "c \<noteq> CHR ''{''" "c \<noteq> CHR ''[''" "c \<noteq> CHR 0x22" by blast
    then show ?thesis
    proof cases
      case obj
      show ?thesis
      proof (cases "skip_ws rest")
        case Nil
        with a Cons obj show ?thesis by simp
      next
        case (Cons d rest')
        note l2 = skip_ws_Cons [OF Cons]
        show ?thesis
        proof (cases "d = CHR ''}''")
          case True
          with a \<open>skip_ws cs = c # rest\<close> obj Cons l l2 show ?thesis by auto
        next
          case False
          with a \<open>skip_ws cs = c # rest\<close> obj Cons have "parse_members n rest [] = Some (v, r)" by simp
          from IHm [OF this] l show ?thesis by simp
        qed
      qed
    next
      case arr
      show ?thesis
      proof (cases "skip_ws rest")
        case Nil
        with a Cons arr show ?thesis by simp
      next
        case (Cons d rest')
        note l2 = skip_ws_Cons [OF Cons]
        show ?thesis
        proof (cases "d = CHR '']''")
          case True
          with a \<open>skip_ws cs = c # rest\<close> arr Cons l l2 show ?thesis by auto
        next
          case False
          with a \<open>skip_ws cs = c # rest\<close> arr Cons have "parse_elements n rest [] = Some (v, r)" by simp
          from IHe [OF this] l show ?thesis by simp
        qed
      qed
    next
      case str
      with a Cons obtain s where "parse_string_body rest [] = Some (s, r)"
        by (auto split: option.splits)
      from parse_string_body_length [OF this] l show ?thesis by simp
    next
      case other
      with a Cons l' show ?thesis
        by (auto split: if_splits option.splits
            dest!: parse_number_length literal_rest [where k = 3] literal_rest [where k = 4])
    qed
  qed
  have e: "length r < length cs" if a: "parse_elements (Suc n) cs acc = Some (v, r)" for cs acc v r
  proof -
    from a obtain w rest where pv: "parse_value n cs = Some (w, rest)"
      by (auto split: option.splits)
    note l = IHv [OF pv]
    from a pv obtain d rest' where sk: "skip_ws rest = d # rest'"
      by (cases "skip_ws rest") auto
    note l2 = skip_ws_Cons [OF sk]
    show ?thesis
    proof (cases "d = CHR '',''")
      case True
      with a pv sk have "parse_elements n rest' (acc @ [w]) = Some (v, r)" by simp
      from IHe [OF this] l l2 show ?thesis by simp
    next
      case False
      with a pv sk l l2 show ?thesis by (auto split: if_splits)
    qed
  qed
  have m: "length r < length cs" if a: "parse_members (Suc n) cs acc = Some (v, r)" for cs acc v r
  proof -
    from a obtain q rest where sk0: "skip_ws cs = q # rest" by (cases "skip_ws cs") auto
    note l0 = skip_ws_Cons [OF sk0]
    from a sk0 have q: "q = CHR 0x22" by (auto split: if_splits)
    from a sk0 q obtain key rest1 where ps: "parse_string_body rest [] = Some (key, rest1)"
      by (auto split: option.splits)
    note l1 = parse_string_body_length [OF ps]
    from a sk0 q ps obtain colon rest2 where sk1: "skip_ws rest1 = colon # rest2"
      by (cases "skip_ws rest1") auto
    note l2 = skip_ws_Cons [OF sk1]
    from a sk0 q ps sk1 have colon: "colon = CHR '':''" by (auto split: if_splits)
    from a sk0 q ps sk1 colon obtain w rest3 where pv: "parse_value n rest2 = Some (w, rest3)"
      by (auto split: option.splits)
    note l3 = IHv [OF pv]
    from a sk0 q ps sk1 colon pv obtain d rest4 where sk3: "skip_ws rest3 = d # rest4"
      by (cases "skip_ws rest3") auto
    note l4 = skip_ws_Cons [OF sk3]
    show ?thesis
    proof (cases "d = CHR '',''")
      case True
      with a sk0 q ps sk1 colon pv sk3
      have "parse_members n rest4 (obj_set acc key w) = Some (v, r)" by simp
      from IHm [OF this] l0 l1 l2 l3 l4 show ?thesis by simp
    next
      case False
      with a sk0 q ps sk1 colon pv sk3 l0 l1 l2 l3 l4 show ?thesis by (auto split: if_splits)
    qed
  qed
  from v e m show ?case by blast
qed


lemma parse_fuel:
  "(\<forall>cs m. 2 * length cs + 1 \<le> n \<and> 2 * length cs + 1 \<le> m
        \<longrightarrow> parse_value n cs = parse_value m cs)
   \<and> (\<forall>cs acc m. 2 * length cs + 2 \<le> n \<and> 2 * length cs + 2 \<le> m
        \<longrightarrow> parse_elements n cs acc = parse_elements m cs acc)
   \<and> (\<forall>cs acc m. 2 * length cs + 2 \<le> n \<and> 2 * length cs + 2 \<le> m
        \<longrightarrow> parse_members n cs acc = parse_members m cs acc)"
proof (induction n)
  case 0
  then show ?case by simp
next
  case (Suc n)
  note IHv = Suc.IH [THEN conjunct1, rule_format, OF conjI]
  note IHe = Suc.IH [THEN conjunct2, THEN conjunct1, rule_format, OF conjI]
  note IHm = Suc.IH [THEN conjunct2, THEN conjunct2, rule_format, OF conjI]
  have v: "parse_value (Suc n) cs = parse_value m cs"
    if b: "2 * length cs + 1 \<le> Suc n" "2 * length cs + 1 \<le> m" for cs m
  proof -
    from b obtain m' where m: "m = Suc m'" by (cases m) auto
    show ?thesis
    proof (cases "skip_ws cs")
      case Nil
      then show ?thesis by (simp add: m)
    next
      case (Cons c rest)
      note l = skip_ws_Cons [OF Cons]
      have eqm: "parse_members n rest [] = parse_members m' rest []"
        using b l m by (intro IHm) simp_all
      have eqe: "parse_elements n rest [] = parse_elements m' rest []"
        using b l m by (intro IHe) simp_all
      show ?thesis by (simp add: m Cons eqm eqe split: list.splits)
    qed
  qed
  have e: "parse_elements (Suc n) cs acc = parse_elements m cs acc"
    if b: "2 * length cs + 2 \<le> Suc n" "2 * length cs + 2 \<le> m" for cs acc m
  proof -
    from b obtain m' where m: "m = Suc m'" by (cases m) auto
    have eqv: "parse_value n cs = parse_value m' cs"
      using b m by (intro IHv) simp_all
    show ?thesis
    proof (cases "parse_value m' cs")
      case None
      then show ?thesis by (simp add: m eqv)
    next
      case (Some p)
      obtain w rest where p: "p = (w, rest)" by (cases p)
      from Some p eqv have "parse_value n cs = Some (w, rest)" by simp
      then have l: "length rest < length cs"
        using parse_rest_length [of n] by blast
      show ?thesis
      proof (cases "skip_ws rest")
        case Nil
        then show ?thesis by (simp add: m eqv Some p)
      next
        case (Cons d rest')
        note l2 = skip_ws_Cons [OF Cons]
        have "parse_elements n rest' (acc @ [w]) = parse_elements m' rest' (acc @ [w])"
          using b l l2 m by (intro IHe) simp_all
        then show ?thesis by (simp add: m eqv Some p Cons)
      qed
    qed
  qed
  have mm: "parse_members (Suc n) cs acc = parse_members m cs acc"
    if b: "2 * length cs + 2 \<le> Suc n" "2 * length cs + 2 \<le> m" for cs acc m
  proof -
    from b obtain m' where m: "m = Suc m'" by (cases m) auto
    show ?thesis
    proof (cases "skip_ws cs")
      case Nil
      then show ?thesis by (simp add: m)
    next
      case sk0: (Cons q rest)
      note l0 = skip_ws_Cons [OF sk0]
      show ?thesis
      proof (cases "parse_string_body rest []")
        case None
        then show ?thesis by (simp add: m sk0)
      next
        case (Some p)
        obtain key rest1 where p: "p = (key, rest1)" by (cases p)
        from Some p have l1: "length rest1 < length rest"
          using parse_string_body_length by blast
        show ?thesis
        proof (cases "skip_ws rest1")
          case Nil
          then show ?thesis by (simp add: m sk0 Some p)
        next
          case sk1: (Cons colon rest2)
          note l2 = skip_ws_Cons [OF sk1]
          have eqv: "parse_value n rest2 = parse_value m' rest2"
            using b l0 l1 l2 m by (intro IHv) simp_all
          show ?thesis
          proof (cases "parse_value m' rest2")
            case None
            then show ?thesis by (simp add: m sk0 Some p sk1 eqv)
          next
            case pv: (Some p')
            obtain w rest3 where p': "p' = (w, rest3)" by (cases p')
            from pv p' eqv have "parse_value n rest2 = Some (w, rest3)" by simp
            then have l3: "length rest3 < length rest2"
              using parse_rest_length [of n] by blast
            show ?thesis
            proof (cases "skip_ws rest3")
              case Nil
              then show ?thesis by (simp add: m sk0 Some p sk1 eqv pv p')
            next
              case sk3: (Cons d rest4)
              note l4 = skip_ws_Cons [OF sk3]
              have "parse_members n rest4 (obj_set acc key w)
                      = parse_members m' rest4 (obj_set acc key w)"
                using b l0 l1 l2 l3 l4 m by (intro IHm) simp_all
              then show ?thesis by (simp add: m sk0 Some p sk1 eqv pv p' sk3)
            qed
          qed
        qed
      qed
    qed
  qed
  from v e mm show ?case by blast
qed

lemma JSON_parse_fuel:
  "2 * length text + 1 \<le> n \<Longrightarrow>
     JSON_parse text = (case parse_value n text of
                          None \<Rightarrow> None
                        | Some (v, rest) \<Rightarrow> if skip_ws rest = [] then Some v else None)"
  using parse_fuel [of n, THEN conjunct1, rule_format, of "text" "2 * length text + 2"]
  by (simp add: JSON_parse_def)

section \<open>Properties of the inferrer and the unifier\<close>

lemma entry_loop_required:
  "snd (fold (\<lambda>(key, value). entryStep key value (f value)) data (ps, rq))
     = rq @ map fst (filter (\<lambda>(key, value). value \<noteq> VUndefined) data)"
  by (induction data arbitrary: ps rq) (auto simp: entryStep_def Let_def)

text \<open>
  C7: when a keyed mapping is inferred, the recorded present-field list holds exactly the
  keys whose value is not \<open>undefined\<close>, in iteration order; so a key is in it if and only
  if it has an entry whose value is not \<open>undefined\<close>, and a key whose value is \<open>null\<close> is
  in it.
\<close>

theorem inferSchema_present_iff:
  "required_keys (inferSchema (VObj data))
     = map fst (filter (\<lambda>(key, value). value \<noteq> VUndefined) data)
   \<and> (key \<in> set (required_keys (inferSchema (VObj data)))
        \<longleftrightarrow> (\<exists>value. (key, value) \<in> set data \<and> value \<noteq> VUndefined))"
proof -
  have eq: "required_keys (inferSchema (VObj data))
     = map fst (filter (\<lambda>(key, value). value \<noteq> VUndefined) data)"
    using entry_loop_required [of inferSchema data "[]" "[]"]
    by (simp add: required_keys_def Let_def)
  show ?thesis unfolding eq by force
qed

theorem inferSchema_present_iff_witness:
  "required (inferSchema (VObj [(''a'', VNull), (''b'', VUndefined)])) = Some [''a'']"
  using inferSchema_present_iff [of "[(''a'', VNull), (''b'', VUndefined)]" "''a''"]
  by (simp add: required_keys_def Let_def split: option.splits if_splits)

text \<open>
  C9: a number that is not finite (\<open>NaN\<close>, \<open>Infinity\<close>, \<open>-Infinity\<close>) is classified as a
  \<open>number\<close> node, by the classifier and by the inferrer that delegates to it, and never
  as an \<open>integer\<close> node.
\<close>

theorem non_finite_is_number:
  "(\<forall>r. x \<noteq> Finite r) \<Longrightarrow>
     inferPrimitiveSchema (VNum x) = type_only ''number''
     \<and> inferSchema (VNum x) = type_only ''number''
     \<and> type (inferSchema (VNum x)) \<noteq> ''integer''"
  by (cases x) (simp_all add: type_only_def)

theorem non_finite_is_number_witness:
  "inferSchema (VNum NaN) = type_only ''number''
   \<and> inferSchema (VNum PosInfinity) = type_only ''number''
   \<and> inferSchema (VNum NegInfinity) = type_only ''number''"
  using non_finite_is_number [of NaN] non_finite_is_number [of PosInfinity]
    non_finite_is_number [of NegInfinity]
  by simp

text \<open>
  C4, as the claim states it, fails: \<open>mergeSchemas\<close> of the empty list does not raise; its
  first branch returns the node \<open>{ type: 'any' }\<close>.
\<close>

theorem mergeSchemas_empty_returns_default:
  "mergeSchemas [] = SchemaType ''any'' None None None None None"
  by (simp add: mergeSchemas_def type_only_def)

text \<open>
  C4, amended: unifying the empty list of nodes returns the placeholder node
  \<open>{ type: 'any' }\<close>, the node the inferrer wraps for an empty sequence; no error is
  reported.
\<close>

theorem mergeSchemas_empty_placeholder:
  "mergeSchemas [] = type_only ''any''
   \<and> items (inferSchema (VArr [])) = Some (mergeSchemas [])"
  by (simp add: mergeSchemas_def)

text \<open>
  The loop of the unifier keeps nodes of the list, with pairwise different
  serialisations, and loses no serialisation.
\<close>

lemma mergeSchemas_singleton: "mergeSchemas [x] = x"
  by (simp add: mergeSchemas_def)

lemma uniqueLoop_subset: "set (uniqueLoop xs seen acc) \<subseteq> set acc \<union> set xs"
proof (induction xs arbitrary: seen acc)
  case Nil
  then show ?case by simp
next
  case (Cons x xs)
  show ?case
    using Cons.IH [of "insert (stringify_schema x) seen" "acc @ [x]"] Cons.IH [of seen acc]
    by (auto simp: Let_def)
qed

lemma uniqueLoop_length: "length acc \<le> length (uniqueLoop xs seen acc)"
proof (induction xs arbitrary: seen acc)
  case Nil
  then show ?case by simp
next
  case (Cons x xs)
  show ?case
    using Cons.IH [of "acc @ [x]" "insert (stringify_schema x) seen"] Cons.IH [of acc seen]
    by (simp add: Let_def)
qed

lemma uniqueLoop_distinct:
  "seen = set (map stringify_schema acc) \<Longrightarrow> distinct (map stringify_schema acc)
     \<Longrightarrow> distinct (map stringify_schema (uniqueLoop xs seen acc))"
proof (induction xs arbitrary: seen acc)
  case Nil
  then show ?case by simp
next
  case (Cons x xs)
  show ?case
  proof (cases "stringify_schema x \<in> seen")
    case True
    then show ?thesis using Cons.IH [OF Cons.prems] by (simp add: Let_def)
  next
    case False
    have "distinct (map stringify_schema (uniqueLoop xs (insert (stringify_schema x) seen) (acc @ [x])))"
      using Cons.prems False by (intro Cons.IH) auto
    then show ?thesis using False by (simp add: Let_def)
  qed
qed

lemma uniqueLoop_nonempty: "xs \<noteq> [] \<Longrightarrow> uniqueLoop xs {} [] \<noteq> []"
proof (cases xs)
  case Nil
  assume "xs \<noteq> []" with Nil show ?thesis by simp
next
  case (Cons x xs')
  have "length [x] \<le> length (uniqueLoop xs' {stringify_schema x} [x])" by (rule uniqueLoop_length)
  then show ?thesis using Cons by (auto simp: Let_def)
qed

lemma uniqueLoop_keys:
  "seen = set (map stringify_schema acc) \<Longrightarrow>
     set (map stringify_schema (uniqueLoop xs seen acc))
       = seen \<union> set (map stringify_schema xs)"
proof (induction xs arbitrary: seen acc)
  case Nil
  then show ?case by simp
next
  case (Cons x xs)
  show ?case
  proof (cases "stringify_schema x \<in> seen")
    case True
    then show ?thesis using Cons.IH [OF Cons.prems] by (auto simp: Let_def)
  next
    case False
    have "set (map stringify_schema
             (uniqueLoop xs (insert (stringify_schema x) seen) (acc @ [x])))
          = insert (stringify_schema x) seen
            \<union> set (map stringify_schema xs)"
      using Cons.prems by (intro Cons.IH) auto
    then show ?thesis using False by (auto simp: Let_def)
  qed
qed

text \<open>
  C5, as the claim states it, fails: \<open>mergeSchemas\<close> compares serialisations, which
  depend on the order of the keys. The two nodes inferred from \<open>{a: 1, b: 2}\<close> and from
  \<open>{b: 2, a: 1}\<close> are structurally equal (same fields, same children, same present set),
  yet unifying them yields a \<open>union\<close> node with these two children. The same happens
  for \<open>{a: undefined, b: undefined}\<close> and \<open>{b: undefined, a: undefined}\<close>, whose nodes
  differ in nothing but the order of \<open>properties\<close>.
\<close>

theorem mergeSchemas_key_order_union:
  "struct_eq (inferSchema (VObj [(''a'', VNum (Finite 1)), (''b'', VNum (Finite 2))]))
             (inferSchema (VObj [(''b'', VNum (Finite 2)), (''a'', VNum (Finite 1))]))
   \<and> mergeSchemas [inferSchema (VObj [(''a'', VNum (Finite 1)), (''b'', VNum (Finite 2))]),
                   inferSchema (VObj [(''b'', VNum (Finite 2)), (''a'', VNum (Finite 1))])]
     = SchemaType ''union'' None None None None
         (Some [inferSchema (VObj [(''a'', VNum (Finite 1)), (''b'', VNum (Finite 2))]),
                inferSchema (VObj [(''b'', VNum (Finite 2)), (''a'', VNum (Finite 1))])])
   \<and> struct_eq (inferSchema (VObj [(''a'', VUndefined), (''b'', VUndefined)]))
                (inferSchema (VObj [(''b'', VUndefined), (''a'', VUndefined)]))
   \<and> inferSchema (VArr [VObj [(''a'', VUndefined), (''b'', VUndefined)],
                        VObj [(''b'', VUndefined), (''a'', VUndefined)]])
     = SchemaType ''array'' None
         (Some (SchemaType ''union'' None None None None
            (Some [SchemaType ''object''
                     (Some [(''a'', type_only ''null''), (''b'', type_only ''null'')])
                     None None None None,
                   SchemaType ''object''
                     (Some [(''b'', type_only ''null''), (''a'', type_only ''null'')])
                     None None None None])))
         None None None"
  by code_simp

text \<open>The loop of the unifier is deduplication by serialisation in first-seen order.\<close>

lemma uniqueLoop_first_seen_gen:
  "seen = set (map stringify_schema acc) \<Longrightarrow>
     uniqueLoop xs seen acc
       = acc @ first_seen stringify_schema (filter (\<lambda>y. stringify_schema y \<notin> seen) xs)"
proof (induction xs arbitrary: seen acc)
  case Nil
  then show ?case by simp
next
  case (Cons x xs)
  show ?case
  proof (cases "stringify_schema x \<in> seen")
    case True
    then show ?thesis using Cons.IH [OF Cons.prems] by (simp add: Let_def)
  next
    case False
    have f: "filter (\<lambda>y. stringify_schema y \<noteq> stringify_schema x
                            \<and> stringify_schema y \<notin> seen) xs
             = filter (\<lambda>y. stringify_schema y \<noteq> stringify_schema x)
                 (filter (\<lambda>y. stringify_schema y \<notin> seen) xs)"
      by (induction xs) auto
    have "uniqueLoop xs (insert (stringify_schema x) seen) (acc @ [x])
            = (acc @ [x]) @ first_seen stringify_schema
                (filter (\<lambda>y. stringify_schema y \<notin> insert (stringify_schema x) seen) xs)"
      using Cons.prems by (intro Cons.IH) auto
    then show ?thesis using False by (simp add: Let_def f del: filter_filter)
  qed
qed

lemma uniqueLoop_first_seen: "uniqueLoop xs {} [] = first_seen stringify_schema xs"
  using uniqueLoop_first_seen_gen [of "{}" "[]" xs] by simp

text \<open>
  C5, amended: nodes are compared by their serialisation, which depends on the order of
  the keys. A singleton list is returned unchanged. A nonempty list whose nodes all have
  the serialisation of the first collapses to the first node. Every other list yields a
  new \<open>union\<close> node whose children are the first node of each serialisation, in
  first-seen order: at least two of them, all from the list, with pairwise different
  serialisations, and every serialisation of the list is among theirs. In particular two
  nodes with different serialisations are both kept as children, also when they are
  structurally equal and differ only in the order of their keys.
\<close>

theorem mergeSchemas_serialisation_dedup:
  assumes "xs \<noteq> []"
  shows "mergeSchemas [x] = x
    \<and> (list_all (\<lambda>s. stringify_schema s = stringify_schema (hd xs)) xs
         \<longrightarrow> mergeSchemas xs = hd xs)
    \<and> (\<not> list_all (\<lambda>s. stringify_schema s = stringify_schema (hd xs)) xs
         \<longrightarrow> mergeSchemas xs
               = SchemaType ''union'' None None None None (Some (first_seen stringify_schema xs))
             \<and> 2 \<le> length (first_seen stringify_schema xs)
             \<and> distinct (map stringify_schema (first_seen stringify_schema xs))
             \<and> set (first_seen stringify_schema xs) \<subseteq> set xs
             \<and> set (map stringify_schema (first_seen stringify_schema xs))
                 = set (map stringify_schema xs))
    \<and> (stringify_schema a \<noteq> stringify_schema b
         \<longrightarrow> mergeSchemas [a, b] = SchemaType ''union'' None None None None (Some [a, b]))"
proof -
  define us where "us = uniqueLoop xs {} []"
  have fs: "first_seen stringify_schema xs = us" by (simp add: us_def uniqueLoop_first_seen)
  have sub: "set us \<subseteq> set xs" using uniqueLoop_subset [of xs "{}" "[]"] by (simp add: us_def)
  have ne: "us \<noteq> []" using assms by (simp add: us_def uniqueLoop_nonempty)
  have dist: "distinct (map stringify_schema us)"
    unfolding us_def by (rule uniqueLoop_distinct) simp_all
  have keys: "set (map stringify_schema us) = set (map stringify_schema xs)"
    unfolding us_def using uniqueLoop_keys [of "{}" "[]" xs] by simp
  have hd0: "xs ! 0 = hd xs" using assms by (cases xs) auto
  have same: "mergeSchemas xs = hd xs"
    if "list_all (\<lambda>s. stringify_schema s = stringify_schema (hd xs)) xs"
    using that assms hd0 by (simp add: mergeSchemas_def Let_def)
  have differ: "mergeSchemas xs = SchemaType ''union'' None None None None (Some us)
                \<and> 2 \<le> length us"
    if n: "\<not> list_all (\<lambda>s. stringify_schema s = stringify_schema (hd xs)) xs"
  proof -
    from n obtain s where s: "s \<in> set xs" "stringify_schema s \<noteq> stringify_schema (hd xs)"
      by (auto simp: list_all_iff)
    have l1: "length xs \<noteq> 1"
    proof
      assume "length xs = 1"
      then obtain y where "xs = [y]" by (cases xs) auto
      with n show False by simp
    qed
    have lu: "length us \<noteq> 1"
    proof
      assume "length us = 1"
      then obtain u where u: "us = [u]" by (cases us) auto
      with keys have "set (map stringify_schema xs) = {stringify_schema u}" by simp
      moreover have "stringify_schema s \<in> set (map stringify_schema xs)" using s(1) by simp
      moreover have "stringify_schema (hd xs) \<in> set (map stringify_schema xs)"
        using assms by simp
      ultimately show False using s(2) by auto
    qed
    with ne have two: "2 \<le> length us" by (cases us) (auto simp: Suc_le_eq)
    from n l1 lu assms hd0 have "mergeSchemas xs = SchemaType ''union'' None None None None (Some us)"
      by (simp add: mergeSchemas_def Let_def us_def)
    with two show ?thesis by simp
  qed
  have pair: "mergeSchemas [a, b] = SchemaType ''union'' None None None None (Some [a, b])"
    if "stringify_schema a \<noteq> stringify_schema b"
    using that by (auto simp: mergeSchemas_def Let_def)
  from same differ pair dist sub keys show ?thesis
    unfolding fs by (simp add: mergeSchemas_singleton)
qed

theorem mergeSchemas_serialisation_dedup_witness:
  "mergeSchemas [type_only ''integer'', type_only ''string'', type_only ''integer'']
     = SchemaType ''union'' None None None None (Some [type_only ''integer'', type_only ''string''])
   \<and> mergeSchemas [type_only ''string'', type_only ''string''] = type_only ''string''
   \<and> mergeSchemas [type_only ''boolean''] = type_only ''boolean''
   \<and> mergeSchemas
        [SchemaType ''object'' (Some [(''a'', type_only ''null''), (''b'', type_only ''null'')])
           None None None None,
         SchemaType ''object'' (Some [(''b'', type_only ''null''), (''a'', type_only ''null'')])
           None None None None]
       = SchemaType ''union'' None None None None
          (Some [SchemaType ''object'' (Some [(''a'', type_only ''null''), (''b'', type_only ''null'')])
                   None None None None,
                 SchemaType ''object'' (Some [(''b'', type_only ''null''), (''a'', type_only ''null'')])
                   None None None None])"
proof -
  have f: "first_seen stringify_schema
             [type_only ''integer'', type_only ''string'', type_only ''integer'']
             = [type_only ''integer'', type_only ''string'']"
    by code_simp
  have n: "\<not> list_all (\<lambda>s. stringify_schema s
             = stringify_schema (hd [type_only ''integer'', type_only ''string'', type_only ''integer'']))
             [type_only ''integer'', type_only ''string'', type_only ''integer'']"
    by code_simp
  have s: "list_all (\<lambda>s. stringify_schema s
                          = stringify_schema (hd [type_only ''string'', type_only ''string'']))
             [type_only ''string'', type_only ''string'']"
    by simp
  have d: "stringify_schema
             (SchemaType ''object'' (Some [(''a'', type_only ''null''), (''b'', type_only ''null'')])
                None None None None)
           \<noteq> stringify_schema
             (SchemaType ''object'' (Some [(''b'', type_only ''null''), (''a'', type_only ''null'')])
                None None None None)"
    by code_simp
  from mergeSchemas_serialisation_dedup
         [where xs = "[type_only ''integer'', type_only ''string'', type_only ''integer'']"
            and x = "type_only ''boolean''"
            and a = "SchemaType ''object''
                       (Some [(''a'', type_only ''null''), (''b'', type_only ''null'')])
                       None None None None"
            and b = "SchemaType ''object''
                       (Some [(''b'', type_only ''null''), (''a'', type_only ''null'')])
                       None None None None"]
       mergeSchemas_serialisation_dedup
         [where xs = "[type_only ''string'', type_only ''string'']"
            and x = "type_only ''boolean''"]
       f n s d
  show ?thesis by auto
qed

section \<open>Properties of the interface renderer\<close>

text \<open>
  C1, as the claim states it, fails: a \<open>string\<close> node whose format is \<open>date-time\<close> is
  rendered as \<open>Date\<close>, not as \<open>string\<close>.
\<close>

theorem string_date_time_renders_Date:
  "generateTypeScriptFromSchema (SchemaType ''string'' None None (Some ''date-time'') None None)
     \<lparr>inferOptional = False, prettify = False, interfaceName = None\<rparr> 0 = ''Date''"
  by simp

text \<open>
  C1, amended: a node of type \<open>string\<close> is rendered as \<open>Date\<close> when its format is
  \<open>date-time\<close> and as \<open>string\<close> for every other format (none, \<open>email\<close>, \<open>uuid\<close> or
  anything else); the formats \<open>email\<close> and \<open>uuid\<close> are not surfaced.
\<close>

theorem string_node_rendering:
  "type schema = ''string'' \<Longrightarrow>
     generateTypeScriptFromSchema schema options depth
       = (if format schema = Some ''date-time'' then ''Date'' else ''string'')"
  by (cases schema) simp

theorem string_node_rendering_witness:
  "generateTypeScriptFromSchema (type_only ''string'')
     \<lparr>inferOptional = True, prettify = False, interfaceName = None\<rparr> 3 = ''string''
   \<and> generateTypeScriptFromSchema (SchemaType ''string'' None None (Some ''email'') None None)
     \<lparr>inferOptional = True, prettify = False, interfaceName = None\<rparr> 3 = ''string''
   \<and> generateTypeScriptFromSchema (SchemaType ''string'' None None (Some ''uuid'') None None)
     \<lparr>inferOptional = True, prettify = False, interfaceName = None\<rparr> 3 = ''string''"
  using
    string_node_rendering [of "SchemaType ''string'' None None (Some ''email'') None None"
      "\<lparr>inferOptional = True, prettify = False, interfaceName = None\<rparr>" 3]
    string_node_rendering [of "SchemaType ''string'' None None (Some ''uuid'') None None"
      "\<lparr>inferOptional = True, prettify = False, interfaceName = None\<rparr>" 3]
    string_node_rendering [of "type_only ''string''"
      "\<lparr>inferOptional = True, prettify = False, interfaceName = None\<rparr>" 3]
  by (simp add: type_only_def)

text \<open>
  C2, as the claim states it, fails: the node inferred from the empty mapping has a
  \<open>properties\<close> object, which is truthy, so the renderer does not take the
  \<open>Record<string, any>\<close> branch; it emits an opening brace, a line break and a closing
  brace.
\<close>

theorem empty_object_renders_braces:
  "generateTypeScriptFromSchema (inferSchema (VObj []))
     \<lparr>inferOptional = False, prettify = False, interfaceName = None\<rparr> 0 = ''{'' @ [CHR 0x0A] @ ''}''"
  by simp

text \<open>
  C2, amended: inferring the empty mapping yields an \<open>object\<close> node whose \<open>properties\<close>
  is the empty mapping and whose \<open>required\<close> is absent; an \<open>object\<close> node whose
  \<open>properties\<close> field is absent renders as \<open>Record<string, any>\<close>; an \<open>object\<close> node
  whose \<open>properties\<close> is present and empty renders as an empty literal (opening brace,
  line break, indentation of the current depth, closing brace).
\<close>

theorem object_without_properties_rendering:
  "inferSchema (VObj []) = SchemaType ''object'' (Some []) None None None None
   \<and> (type schema = ''object'' \<and> properties schema = None \<longrightarrow>
        generateTypeScriptFromSchema schema options depth = ''Record<string, any>'')
   \<and> (type schema = ''object'' \<and> properties schema = Some [] \<longrightarrow>
        generateTypeScriptFromSchema schema options depth
          = ''{'' @ [CHR 0x0A] @ concat (replicate depth ''  '') @ ''}'')"
  by (cases schema) simp

theorem object_without_properties_rendering_witness:
  "generateTypeScriptFromSchema (type_only ''object'')
     \<lparr>inferOptional = True, prettify = False, interfaceName = None\<rparr> 1 = ''Record<string, any>''
   \<and> generateTypeScriptFromSchema (SchemaType ''object'' (Some []) None None None None)
     \<lparr>inferOptional = True, prettify = False, interfaceName = None\<rparr> 1
       = ''{'' @ [CHR 0x0A] @ ''  }''"
  using
    object_without_properties_rendering [of "type_only ''object''"
      "\<lparr>inferOptional = True, prettify = False, interfaceName = None\<rparr>" 1]
    object_without_properties_rendering [of "SchemaType ''object'' (Some []) None None None None"
      "\<lparr>inferOptional = True, prettify = False, interfaceName = None\<rparr>" 1]
  by (simp add: type_only_def)

section \<open>Properties of the JSON-Schema renderer\<close>

text \<open>
  C3, as the claim states it, fails: the placeholder child \<open>{ type: 'any' }\<close> of the node
  inferred from an empty sequence is rendered by the default branch, so \<open>items\<close> is not
  the empty schema object.
\<close>

theorem empty_array_items_not_empty_schema:
  "json_get (generateJsonSchemaFromSchema (inferSchema (VArr []))
       \<lparr>inferOptional = False, prettify = False, interfaceName = None\<rparr>) ''items''
     \<noteq> Some (JObj [])"
  by (simp add: type_only_def)

text \<open>
  C3, amended: inferring an empty sequence yields an \<open>array\<close> node wrapping the
  placeholder child \<open>{ type: 'any' }\<close>, and the JSON-Schema renderer renders that node as
  \<open>{type: array, items: {description: "Represents type: any"}}\<close>: the \<open>items\<close> schema
  carries a description annotation and no \<open>type\<close> keyword. In general an \<open>array\<close> node
  that has an items child renders \<open>items\<close> as the rendering of that child, and an
  \<open>array\<close> node that has no items child renders \<open>items\<close> as the empty schema \<open>{}\<close>.
\<close>

theorem empty_array_items_description:
  "inferSchema (VArr []) = SchemaType ''array'' None (Some (type_only ''any'')) None None None
   \<and> generateJsonSchemaFromSchema (inferSchema (VArr [])) options
     = JObj [(''type'', JStr ''array''),
             (''items'', JObj [(''description'', JStr ''Represents type: any'')])]
   \<and> (type schema = ''array'' \<and> items schema = None \<longrightarrow>
        generateJsonSchemaFromSchema schema options
          = JObj [(''type'', JStr ''array''), (''items'', JObj [])])
   \<and> (type schema = ''array'' \<and> items schema = Some child \<longrightarrow>
        generateJsonSchemaFromSchema schema options
          = JObj [(''type'', JStr ''array''),
                  (''items'', generateJsonSchemaFromSchema child options)])"
  by (cases schema) (simp add: type_only_def)

theorem empty_array_items_description_witness:
  "generateJsonSchemaFromSchema (SchemaType ''array'' None None None None None)
       \<lparr>inferOptional = True, prettify = False, interfaceName = None\<rparr>
     = JObj [(''type'', JStr ''array''), (''items'', JObj [])]
   \<and> generateJsonSchemaFromSchema
       (SchemaType ''array'' None (Some (type_only ''integer'')) None None None)
       \<lparr>inferOptional = True, prettify = False, interfaceName = None\<rparr>
     = JObj [(''type'', JStr ''array''), (''items'', JObj [(''type'', JStr ''integer'')])]"
  using
    empty_array_items_description
      [where schema = "SchemaType ''array'' None None None None None"
         and options = "\<lparr>inferOptional = True, prettify = False, interfaceName = None\<rparr>"]
    empty_array_items_description
      [where schema = "SchemaType ''array'' None (Some (type_only ''integer'')) None None None"
         and child = "type_only ''integer''"
         and options = "\<lparr>inferOptional = True, prettify = False, interfaceName = None\<rparr>"]
  by (simp add: type_only_def)

text \<open>
  C6: for an \<open>object\<close> node the \<open>required\<close> entry of the rendered JSON-Schema node follows
  \<open>inferOptional\<close>. When it is set, the entry is the node's recorded \<open>required\<close> list, and
  there is no entry when that list is absent or empty. When it is not set, the entry
  lists all keys of \<open>properties\<close>, whatever the node's \<open>required\<close> records, and there is
  no entry when \<open>properties\<close> is absent or has no key.
\<close>

theorem json_required_policy:
  "type schema = ''object'' \<Longrightarrow>
     json_get (generateJsonSchemaFromSchema schema options) ''required''
       = (if inferOptional options
          then (case required schema of
                  None \<Rightarrow> None
                | Some r \<Rightarrow> if r = [] then None else Some (JArr (map JStr r)))
          else (case properties schema of
                  None \<Rightarrow> None
                | Some entries \<Rightarrow>
                    if entries = [] then None else Some (JArr (map JStr (map fst entries)))))"
  by (cases schema) (simp add: Let_def split: option.splits)

theorem json_required_policy_witness:
  "json_get (generateJsonSchemaFromSchema
       (SchemaType ''object''
          (Some [(''a'', type_only ''integer''), (''b'', type_only ''string'')])
          None None (Some [''a'']) None)
       \<lparr>inferOptional = True, prettify = False, interfaceName = None\<rparr>) ''required''
     = Some (JArr [JStr ''a''])
   \<and> json_get (generateJsonSchemaFromSchema
       (SchemaType ''object''
          (Some [(''a'', type_only ''integer''), (''b'', type_only ''string'')])
          None None (Some [''a'']) None)
       \<lparr>inferOptional = False, prettify = False, interfaceName = None\<rparr>) ''required''
     = Some (JArr [JStr ''a'', JStr ''b''])"
  using
    json_required_policy [of "SchemaType ''object''
          (Some [(''a'', type_only ''integer''), (''b'', type_only ''string'')])
          None None (Some [''a'']) None"
      "\<lparr>inferOptional = True, prettify = False, interfaceName = None\<rparr>"]
    json_required_policy [of "SchemaType ''object''
          (Some [(''a'', type_only ''integer''), (''b'', type_only ''string'')])
          None None (Some [''a'']) None"
      "\<lparr>inferOptional = False, prettify = False, interfaceName = None\<rparr>"]
  by simp

text \<open>
  A \<open>union\<close> node with children is rendered as the \<open>anyOf\<close> of its rendered children,
  so the policy above holds for every object child of a union as well.
\<close>

lemma json_union_children:
  "type schema = ''union'' \<Longrightarrow> enum_s schema = Some es \<Longrightarrow> es \<noteq> [] \<Longrightarrow>
     generateJsonSchemaFromSchema schema options
       = JObj [(''anyOf'', JArr (map (\<lambda>s. generateJsonSchemaFromSchema s options) es))]"
  by (cases schema) simp

section \<open>Properties of \<open>dedupeUnions\<close>\<close>

text \<open>
  The interface branch returns only when a round changes nothing, so its result is a fixed
  point of the round, and the branch applied to its own result returns it unchanged. This
  holds for any round and any collation; nothing here shows that the loop ends on every
  text.
\<close>

lemma dedupeLoop_fixed_point:
  assumes "dedupeLoop pass t = Some out"
  shows "pass out = out"
proof (rule dedupeLoop.raw_induct [where P = "\<lambda>p t y. p y = y", OF _ assms])
  fix loop :: "(string \<Rightarrow> string) \<Rightarrow> string \<Rightarrow> string option" and p t' y
  assume IH: "\<And>p t y. loop p t = Some y \<Longrightarrow> p y = y"
    and step: "(let previousText = t'; dedupedText' = p t'
                in if previousText \<noteq> dedupedText' then loop p dedupedText'
                   else Some dedupedText') = Some y"
  show "p y = y"
  proof (cases "t' = p t'")
    case True
    with step have "y = p t'" by (simp add: Let_def)
    with True show ?thesis by simp
  next
    case False
    with step have "loop p (p t') = Some y" by (simp add: Let_def)
    then show ?thesis by (rule IH)
  qed
qed

lemma dedupeLoop_idempotent:
  assumes "dedupeLoop pass t = Some out"
  shows "dedupeLoop pass out = Some out"
proof -
  have "pass out = out" using assms by (rule dedupeLoop_fixed_point)
  then show ?thesis by (subst dedupeLoop.simps) (simp add: Let_def)
qed

lemma dedupe_typescript_idempotent:
  "dedupeUnions localeCompare t Typescript pretty = Some out
     \<Longrightarrow> dedupeUnions localeCompare out Typescript pretty' = Some out"
  by (simp add: dedupeUnions_def dedupeLoop_idempotent)

lemma dedupePass_example:
  "dedupePass bytewise ''a: number | string | string;'' = ''a: number | string;''
   \<and> dedupePass bytewise ''a: number | string;'' = ''a: number | string;''"
  by code_simp

lemma dedupe_typescript_example:
  "dedupeUnions bytewise ''a: number | string | string;'' Typescript False
     = Some ''a: number | string;''"
  apply (simp only: dedupeUnions_def if_True refl)
  apply (subst dedupeLoop.simps, simp only: dedupePass_example Let_def)
  apply (subst dedupeLoop.simps, simp only: dedupePass_example Let_def)
  apply simp
  done

text \<open>
  C10: when the text is not parseable as JSON, \<open>dedupeUnions\<close> for the JSON-Schema
  target returns the text as it was given, with either value of the prettify flag.
\<close>

theorem dedupe_jsonschema_parse_failure:
  "JSON_parse text = None \<Longrightarrow> dedupeUnions localeCompare text Jsonschema pretty = Some text"
  by (simp add: dedupeUnions_def dedupeUnions_jsonschema_def)

theorem dedupe_jsonschema_parse_failure_witness:
  "JSON_parse ''interface X { a: string | string }'' = None
   \<and> dedupeUnions bytewise ''interface X { a: string | string }'' Jsonschema True
       = Some ''interface X { a: string | string }''"
proof -
  have h: "JSON_parse ''interface X { a: string | string }'' = None" by code_simp
  show ?thesis using h dedupe_jsonschema_parse_failure [OF h, of bytewise True] by simp
qed

text \<open>
  The pass on the document \<open>{anyOf: [{anyOf: [S, S]}, S]}\<close> with \<open>S = {type: string}\<close>,
  and on its own result.
\<close>

lemma dedupe_jsonschema_two_passes:
  "dedupeUnions_jsonschema
     (JSON_stringify (JObj [(''anyOf'', JArr
        [JObj [(''anyOf'', JArr [JObj [(''type'', JStr ''string'')],
                                 JObj [(''type'', JStr ''string'')]])],
         JObj [(''type'', JStr ''string'')]])])) False
     = JSON_stringify (JObj [(''anyOf'', JArr [JObj [(''type'', JStr ''string'')],
                                               JObj [(''type'', JStr ''string'')]])])
   \<and> dedupeUnions_jsonschema
       (JSON_stringify (JObj [(''anyOf'', JArr [JObj [(''type'', JStr ''string'')],
                                                 JObj [(''type'', JStr ''string'')]])])) False
     = JSON_stringify (JObj [(''type'', JStr ''string'')])
   \<and> JSON_stringify (JObj [(''anyOf'', JArr [JObj [(''type'', JStr ''string'')],
                                              JObj [(''type'', JStr ''string'')]])])
     \<noteq> JSON_stringify (JObj [(''type'', JStr ''string'')])"
  by code_simp

text \<open>
  C8 does not hold of the code for the JSON-Schema target: \<open>walk\<close> filters the \<open>anyOf\<close>
  of a node before it descends into the members, so a member that collapses to a copy of
  its sibling leaves a duplicate behind. On the document
  \<open>{anyOf: [{anyOf: [S, S]}, S]}\<close> the pass returns \<open>{anyOf: [S, S]}\<close>, and the pass
  applied to that text returns \<open>S\<close>, a different text.
\<close>

theorem dedupe_jsonschema_second_pass_changes:
  "dedupeUnions localeCompare
     (JSON_stringify (JObj [(''anyOf'', JArr
        [JObj [(''anyOf'', JArr [JObj [(''type'', JStr ''string'')],
                                 JObj [(''type'', JStr ''string'')]])],
         JObj [(''type'', JStr ''string'')]])])) Jsonschema False
     = Some (JSON_stringify (JObj [(''anyOf'', JArr [JObj [(''type'', JStr ''string'')],
                                                     JObj [(''type'', JStr ''string'')]])]))
   \<and> dedupeUnions localeCompare
       (JSON_stringify (JObj [(''anyOf'', JArr [JObj [(''type'', JStr ''string'')],
                                                 JObj [(''type'', JStr ''string'')]])])) Jsonschema False
     = Some (JSON_stringify (JObj [(''type'', JStr ''string'')]))
   \<and> JSON_stringify (JObj [(''anyOf'', JArr [JObj [(''type'', JStr ''string'')],
                                              JObj [(''type'', JStr ''string'')]])])
     \<noteq> JSON_stringify (JObj [(''type'', JStr ''string'')])"
  using dedupe_jsonschema_two_passes by (simp only: dedupeUnions_def output_format.simps if_False) simp

text \<open>
  The same divergence on a rendered document: the schema inferred from
  \<open>[[{a: undefined}, {a: null}], [{a: null}]]\<close>, rendered without \<open>inferOptional\<close>, has
  two union members that the renderer maps to one text; the pass leaves the outer union
  with two equal members, and a second pass removes it.
\<close>

lemma dedupe_rendered_second_pass_changes:
  "dedupeUnions_jsonschema
     (generateJsonSchema
        (inferSchema (VArr [VArr [VObj [(''a'', VUndefined)], VObj [(''a'', VNull)]],
                            VArr [VObj [(''a'', VNull)]]]))
        \<lparr>inferOptional = False, prettify = False, interfaceName = None\<rparr>) False
   \<noteq> dedupeUnions_jsonschema
       (dedupeUnions_jsonschema
          (generateJsonSchema
             (inferSchema (VArr [VArr [VObj [(''a'', VUndefined)], VObj [(''a'', VNull)]],
                                 VArr [VObj [(''a'', VNull)]]]))
             \<lparr>inferOptional = False, prettify = False, interfaceName = None\<rparr>) False) False"
  by code_simp

end
